theory Spec2Isabelle
  imports Main "HOL-Library.Word"
begin

section \<open>The machine the function runs on\<close>

text \<open>
  The repository is one C function, \<^verbatim>\<open>cpuid_raw\<close> in \<^verbatim>\<open>src/c/cpuid.c\<close>:
  \<^verbatim>\<open>
  void cpuid_raw(uint32_t leaf, uint32_t subleaf,
                 uint32_t* eax, uint32_t* ebx,
                 uint32_t* ecx, uint32_t* edx) {
  #if defined(_MSC_VER)
      int regs[4];
      __cpuidex(regs, leaf, subleaf);
      *eax = regs[0]; *ebx = regs[1]; *ecx = regs[2]; *edx = regs[3];
  #elif defined(__GNUC__) || defined(__clang__)
      __asm__ volatile("cpuid"
                       : "=a"(*eax), "=b"(*ebx), "=c"(*ecx), "=d"(*edx)
                       : "a"(leaf), "c"(subleaf));
  #else
      *eax = *ebx = *ecx = *edx = 0;
  #endif
  }
  \<close>
  A \<^verbatim>\<open>uint32_t\<close> is a 32-bit word. A \<^verbatim>\<open>uint32_t*\<close> is the address of one
  \<^verbatim>\<open>uint32_t\<close> object; two pointers denote the same object exactly when the addresses are
  equal.
\<close>

type_synonym u32 = "32 word"
type_synonym addr = nat

text \<open>
  The four general-purpose registers the \<^verbatim>\<open>cpuid\<close> instruction touches, named by the
  constraint letters of the inline assembly: \<^verbatim>\<open>a\<close>, \<^verbatim>\<open>b\<close>, \<^verbatim>\<open>c\<close>, \<^verbatim>\<open>d\<close>.
\<close>

datatype reg = EAX | EBX | ECX | EDX

type_synonym regfile = "reg \<Rightarrow> u32"

text \<open>
  The processor context: what this logical processor reports for the selector pair found in
  (EAX, ECX), as the values it leaves in (EAX, EBX, ECX, EDX). The source does not determine
  it, so it is a parameter of everything below. It is a total function: every selector pair,
  recognised or not, gets four values.
\<close>

type_synonym cpu = "u32 \<Rightarrow> u32 \<Rightarrow> u32 \<times> u32 \<times> u32 \<times> u32"

text \<open>
  The \<^verbatim>\<open>cpuid\<close> machine instruction: it reads EAX and ECX and overwrites EAX, EBX, ECX and
  EDX.
\<close>

definition cpuid_insn :: "cpu \<Rightarrow> regfile \<Rightarrow> regfile" where
  "cpuid_insn hw r =
     (case hw (r EAX) (r ECX) of
        (a, b, c, d) \<Rightarrow> r(EAX := a, EBX := b, ECX := c, EDX := d))"

subsection \<open>C's \<^verbatim>\<open>int\<close> and the conversions at the intrinsic's boundary\<close>

text \<open>
  A C \<^verbatim>\<open>int\<close> is modelled by its mathematical value, an integer in
  \<open>[-2^31, 2^31)\<close>. Passing a \<^verbatim>\<open>uint32_t\<close> where an \<^verbatim>\<open>int\<close> is expected
  converts it; for a value above \<^verbatim>\<open>INT_MAX\<close> the result is implementation-defined, and the one
  compiler that compiles this branch wraps modulo \<open>2^32\<close>, which is the two's complement
  reading of the same 32 bits. Assigning an \<^verbatim>\<open>int\<close> to a \<^verbatim>\<open>uint32_t\<close> reduces it modulo
  \<open>2^32\<close>.
\<close>

definition int_of_u32 :: "u32 \<Rightarrow> int" where
  "int_of_u32 w = sint w"

definition u32_of_int :: "int \<Rightarrow> u32" where
  "u32_of_int i = word_of_int i"

text \<open>
  Modelled from the spec: the vendor intrinsic \<^verbatim>\<open>__cpuidex(int[4], int, int)\<close>, declared by
  the compiler's own \<^verbatim>\<open>intrin.h\<close> and absent from the repository. The spec calls it
  "a compiler-provided function that expands directly to a specific machine instruction" and
  asks of any such intrinsic that it keep the "exact input/output register semantics
  (leaf in one register, subleaf in another, four outputs in four fixed registers)". So it
  runs \<^const>\<open>cpuid_insn\<close> with its two \<^verbatim>\<open>int\<close> arguments in EAX and ECX, on whatever
  the registers held before (\<open>r0\<close>), and fills all four entries of the array with the
  registers EAX, EBX, ECX, EDX, in this order, as \<^verbatim>\<open>int\<close> values.
\<close>

definition cpuidex :: "cpu \<Rightarrow> regfile \<Rightarrow> int \<Rightarrow> int \<Rightarrow> int list" where
  "cpuidex hw r0 function_id subfunction_id =
     (let r = cpuid_insn hw (r0(EAX := word_of_int function_id, ECX := word_of_int subfunction_id))
      in [sint (r EAX), sint (r EBX), sint (r ECX), sint (r EDX)])"

subsection \<open>Memory, and stores through a pointer\<close>

text \<open>
  The program state is the memory: a partial map from addresses to the \<^verbatim>\<open>uint32_t\<close>
  objects that exist. Beside it the state keeps the list of the stores executed so far, oldest
  first, so that "this location was written" can be said. A store through a pointer that
  designates no object (a null or dangling pointer) is undefined behaviour in C; the model
  stops there with a fault.
\<close>

datatype fault = Invalid_Pointer

record cstate =
  heap :: "addr \<rightharpoonup> u32"
  wlog :: "(addr \<times> u32) list"

definition store_u32 :: "addr \<Rightarrow> u32 \<Rightarrow> cstate \<Rightarrow> fault + cstate" where
  "store_u32 p v s =
     (case heap s p of
        None \<Rightarrow> Inl Invalid_Pointer
      | Some _ \<Rightarrow> Inr (s\<lparr>heap := (heap s)(p \<mapsto> v), wlog := wlog s @ [(p, v)]\<rparr>))"

text \<open>A sequence of stores, executed left to right; the first fault ends it.\<close>

fun stores :: "(addr \<times> u32) list \<Rightarrow> cstate \<Rightarrow> fault + cstate" where
  "stores [] s = Inr s"
| "stores ((p, v) # ws) s =
     (case store_u32 p v s of
        Inl e \<Rightarrow> Inl e
      | Inr s' \<Rightarrow> stores ws s')"

text \<open>The memory after a sequence of stores, when none of them faults.\<close>

fun write_all :: "(addr \<times> u32) list \<Rightarrow> (addr \<rightharpoonup> u32) \<Rightarrow> (addr \<rightharpoonup> u32)" where
  "write_all [] h = h"
| "write_all ((p, v) # ws) h = write_all ws (h(p \<mapsto> v))"

section \<open>The function\<close>

text \<open>
  What the preprocessor sees of the toolchain: which of the three macros tested by the
  \<^verbatim>\<open>#if\<close> chain are defined.
\<close>

record toolchain =
  def_MSC_VER :: bool
  def_GNUC :: bool
  def_clang :: bool

text \<open>
  The three bodies the preprocessor chooses from. Each takes the run-time inputs of the call:
  the processor \<open>hw\<close>, the register contents \<open>r0\<close> on entry (the source does not
  determine them), the two selectors, the four pointers and the state.
\<close>

text \<open>
  \<^verbatim>\<open>int regs[4]; __cpuidex(regs, leaf, subleaf);\<close>
  \<^verbatim>\<open>*eax = regs[0]; *ebx = regs[1]; *ecx = regs[2]; *edx = regs[3];\<close>
\<close>

definition cpuid_raw_intrinsic ::
  "cpu \<Rightarrow> regfile \<Rightarrow> u32 \<Rightarrow> u32 \<Rightarrow> addr \<Rightarrow> addr \<Rightarrow> addr \<Rightarrow> addr \<Rightarrow> cstate \<Rightarrow> fault + cstate" where
  "cpuid_raw_intrinsic hw r0 leaf subleaf eax ebx ecx edx s =
     (let regs = cpuidex hw r0 (int_of_u32 leaf) (int_of_u32 subleaf)
      in stores [(eax, u32_of_int (regs ! 0)), (ebx, u32_of_int (regs ! 1)),
                 (ecx, u32_of_int (regs ! 2)), (edx, u32_of_int (regs ! 3))] s)"

text \<open>
  The \<^verbatim>\<open>asm\<close> statement: the input operands \<^verbatim>\<open>"a"(leaf)\<close> and \<^verbatim>\<open>"c"(subleaf)\<close> put
  \<open>leaf\<close> in EAX and \<open>subleaf\<close> in ECX, the template is the one instruction, and the
  output operands \<^verbatim>\<open>"=a"(*eax), "=b"(*ebx), "=c"(*ecx), "=d"(*edx)\<close> store the four
  registers through the four pointers. The compiler chooses the order of these four stores;
  the model takes the operands' order.
\<close>

definition cpuid_raw_asm ::
  "cpu \<Rightarrow> regfile \<Rightarrow> u32 \<Rightarrow> u32 \<Rightarrow> addr \<Rightarrow> addr \<Rightarrow> addr \<Rightarrow> addr \<Rightarrow> cstate \<Rightarrow> fault + cstate" where
  "cpuid_raw_asm hw r0 leaf subleaf eax ebx ecx edx s =
     (let r = cpuid_insn hw (r0(EAX := leaf, ECX := subleaf))
      in stores [(eax, r EAX), (ebx, r EBX), (ecx, r ECX), (edx, r EDX)] s)"

text \<open>
  \<^verbatim>\<open>*eax = *ebx = *ecx = *edx = 0;\<close> Assignment associates to the right: the innermost
  assignment stores 0 through \<open>edx\<close>, and each enclosing one stores the value of the
  assignment inside it, which is the value just stored.
\<close>

definition cpuid_raw_zero ::
  "cpu \<Rightarrow> regfile \<Rightarrow> u32 \<Rightarrow> u32 \<Rightarrow> addr \<Rightarrow> addr \<Rightarrow> addr \<Rightarrow> addr \<Rightarrow> cstate \<Rightarrow> fault + cstate" where
  "cpuid_raw_zero hw r0 leaf subleaf eax ebx ecx edx s =
     (let v3 = 0; v2 = v3; v1 = v2; v0 = v1
      in stores [(edx, v3), (ecx, v2), (ebx, v1), (eax, v0)] s)"

text \<open>
  The \<^verbatim>\<open>#if defined(_MSC_VER)\<close> / \<^verbatim>\<open>#elif defined(__GNUC__) || defined(__clang__)\<close> /
  \<^verbatim>\<open>#else\<close> chain around them. The preprocessor evaluates it, on the toolchain's macros
  alone, before the function is compiled: it leaves one of the three bodies in the function.
\<close>

datatype mechanism = Intrinsic | Inline_Asm | Zero_Fallback

definition preprocess :: "toolchain \<Rightarrow> mechanism" where
  "preprocess tc =
     (if def_MSC_VER tc then Intrinsic
      else if def_GNUC tc \<or> def_clang tc then Inline_Asm
      else Zero_Fallback)"

fun compiled_body ::
  "mechanism \<Rightarrow> cpu \<Rightarrow> regfile \<Rightarrow> u32 \<Rightarrow> u32 \<Rightarrow> addr \<Rightarrow> addr \<Rightarrow> addr \<Rightarrow> addr \<Rightarrow> cstate
     \<Rightarrow> fault + cstate" where
  "compiled_body Intrinsic = cpuid_raw_intrinsic"
| "compiled_body Inline_Asm = cpuid_raw_asm"
| "compiled_body Zero_Fallback = cpuid_raw_zero"

definition cpuid_raw ::
  "toolchain \<Rightarrow> cpu \<Rightarrow> regfile \<Rightarrow> u32 \<Rightarrow> u32 \<Rightarrow> addr \<Rightarrow> addr \<Rightarrow> addr \<Rightarrow> addr \<Rightarrow> cstate
     \<Rightarrow> fault + cstate" where
  "cpuid_raw tc hw r0 leaf subleaf eax ebx ecx edx s =
     compiled_body (preprocess tc) hw r0 leaf subleaf eax ebx ecx edx s"

subsection \<open>Vocabulary of the properties\<close>

text \<open>A pointer is valid in a state when it designates an object of that state.\<close>

definition valid_ptr :: "cstate \<Rightarrow> addr \<Rightarrow> bool" where
  "valid_ptr s p = (heap s p \<noteq> None)"

text \<open>The stores executed between an earlier state and a later one.\<close>

definition new_stores :: "cstate \<Rightarrow> cstate \<Rightarrow> (addr \<times> u32) list" where
  "new_stores s s' = drop (length (wlog s)) (wlog s')"

text \<open>What the caller reads back from its four output locations.\<close>

definition outputs :: "addr \<Rightarrow> addr \<Rightarrow> addr \<Rightarrow> addr \<Rightarrow> cstate \<Rightarrow> u32 option list" where
  "outputs eax ebx ecx edx s = [heap s eax, heap s ebx, heap s ecx, heap s edx]"

text \<open>The fallback configuration: no macro of the chain is defined.\<close>

definition fallback_config :: "toolchain \<Rightarrow> bool" where
  "fallback_config tc = (\<not> def_MSC_VER tc \<and> \<not> def_GNUC tc \<and> \<not> def_clang tc)"

subsection \<open>Concrete toolchains, a processor and a state, for evaluation\<close>

definition msvc :: toolchain where
  "msvc = \<lparr>def_MSC_VER = True, def_GNUC = False, def_clang = False\<rparr>"

definition gcc :: toolchain where
  "gcc = \<lparr>def_MSC_VER = False, def_GNUC = True, def_clang = False\<rparr>"

definition clang_cl :: toolchain where
  "clang_cl = \<lparr>def_MSC_VER = True, def_GNUC = False, def_clang = True\<rparr>"

definition other_cc :: toolchain where
  "other_cc = \<lparr>def_MSC_VER = False, def_GNUC = False, def_clang = False\<rparr>"

text \<open>
  A processor that answers leaf 0 with a highest leaf of \<open>0x16\<close> and the vendor string
  "GenuineIntel", and every other selector pair with values that have the top bit set.
\<close>

definition sample_cpu :: cpu where
  "sample_cpu l sl =
     (if l = 0 then (0x16, 0x756E6547, 0x6C65746E, 0x49656E69)
      else (0x80000000 + l, 0xFFFFFFFF, sl, 0x80000001))"

definition sample_regs :: regfile where
  "sample_regs = (\<lambda>_. 0xDEADBEEF)"

text \<open>Four \<^verbatim>\<open>uint32_t\<close> objects at addresses 100 to 103 and a fifth at 200.\<close>

definition sample_state :: cstate where
  "sample_state =
     \<lparr>heap = [100 \<mapsto> 0xAAAAAAAA, 101 \<mapsto> 0xBBBBBBBB, 102 \<mapsto> 0xCCCCCCCC, 103 \<mapsto> 0xDDDDDDDD,
              200 \<mapsto> 0x12345678],
      wlog = []\<rparr>"

text \<open>Other register contents, and another state with four objects at 300 to 303.\<close>

definition other_regs :: regfile where
  "other_regs = (\<lambda>_. 0x0BADF00D)"

definition other_state :: cstate where
  "other_state =
     \<lparr>heap = [300 \<mapsto> 1, 301 \<mapsto> 2, 302 \<mapsto> 3, 303 \<mapsto> 4],
      wlog = [(300, 1)]\<rparr>"

subsection \<open>Calls, and calls running at the same time\<close>

text \<open>
  The sequence of stores a call executes, branch by branch: the same four stores, in the same
  order, that the three bodies above hand to \<^const>\<open>stores\<close>. It does not depend on the
  memory.
\<close>

definition cpuid_raw_stores ::
  "toolchain \<Rightarrow> cpu \<Rightarrow> regfile \<Rightarrow> u32 \<Rightarrow> u32 \<Rightarrow> addr \<Rightarrow> addr \<Rightarrow> addr \<Rightarrow> addr
     \<Rightarrow> (addr \<times> u32) list" where
  "cpuid_raw_stores tc hw r0 leaf subleaf eax ebx ecx edx =
     (case preprocess tc of
        Intrinsic \<Rightarrow>
          (let regs = cpuidex hw r0 (int_of_u32 leaf) (int_of_u32 subleaf)
           in [(eax, u32_of_int (regs ! 0)), (ebx, u32_of_int (regs ! 1)),
               (ecx, u32_of_int (regs ! 2)), (edx, u32_of_int (regs ! 3))])
      | Inline_Asm \<Rightarrow>
          (let r = cpuid_insn hw (r0(EAX := leaf, ECX := subleaf))
           in [(eax, r EAX), (ebx, r EBX), (ecx, r ECX), (edx, r EDX)])
      | Zero_Fallback \<Rightarrow> [(edx, 0), (ecx, 0), (ebx, 0), (eax, 0)])"

text \<open>
  One thread's call: the logical processor the thread runs on and the registers it finds
  there, its two selectors, and its four output pointers.
\<close>

record call =
  c_hw :: cpu
  c_regs :: regfile
  c_leaf :: u32
  c_subleaf :: u32
  c_eax :: addr
  c_ebx :: addr
  c_ecx :: addr
  c_edx :: addr

definition run_call :: "toolchain \<Rightarrow> call \<Rightarrow> cstate \<Rightarrow> fault + cstate" where
  "run_call tc c s =
     cpuid_raw tc (c_hw c) (c_regs c) (c_leaf c) (c_subleaf c)
       (c_eax c) (c_ebx c) (c_ecx c) (c_edx c) s"

definition call_stores :: "toolchain \<Rightarrow> call \<Rightarrow> (addr \<times> u32) list" where
  "call_stores tc c =
     cpuid_raw_stores tc (c_hw c) (c_regs c) (c_leaf c) (c_subleaf c)
       (c_eax c) (c_ebx c) (c_ecx c) (c_edx c)"

definition call_ptrs :: "call \<Rightarrow> addr set" where
  "call_ptrs c = {c_eax c, c_ebx c, c_ecx c, c_edx c}"

definition call_outputs :: "call \<Rightarrow> cstate \<Rightarrow> u32 option list" where
  "call_outputs c s = outputs (c_eax c) (c_ebx c) (c_ecx c) (c_edx c) s"

text \<open>The calls of a list use output storage of their own: no location is shared by two.\<close>

fun apart :: "call list \<Rightarrow> bool" where
  "apart [] = True"
| "apart (c # cs) = ((\<forall>d \<in> set cs. call_ptrs c \<inter> call_ptrs d = {}) \<and> apart cs)"

text \<open>
  Threads running at the same time, each executing its own sequence of steps in its own
  order: the executions are the interleavings of the sequences. A step is one store, which
  the machine performs as a whole.
\<close>

fun interleavings :: "'a list list \<Rightarrow> 'a list set" where
  "interleavings [] = {[]}"
| "interleavings (xs # xss) = (\<Union>ys \<in> interleavings xss. shuffles xs ys)"

text \<open>
  Eight objects at 100 to 103 and 300 to 303, and two calls on different logical processors
  with different selectors, one writing to the first four and one to the last four.
\<close>

definition shared_state :: cstate where
  "shared_state =
     \<lparr>heap = [100 \<mapsto> 0xAAAAAAAA, 101 \<mapsto> 0xBBBBBBBB, 102 \<mapsto> 0xCCCCCCCC, 103 \<mapsto> 0xDDDDDDDD,
              300 \<mapsto> 1, 301 \<mapsto> 2, 302 \<mapsto> 3, 303 \<mapsto> 4],
      wlog = []\<rparr>"

definition other_cpu :: cpu where
  "other_cpu l sl = (l + 1, sl + 2, 0xF0F0F0F0, 0)"

definition call_a :: call where
  "call_a = \<lparr>c_hw = sample_cpu, c_regs = sample_regs, c_leaf = 0, c_subleaf = 0,
              c_eax = 100, c_ebx = 101, c_ecx = 102, c_edx = 103\<rparr>"

definition call_b :: call where
  "call_b = \<lparr>c_hw = other_cpu, c_regs = other_regs, c_leaf = 5, c_subleaf = 7,
              c_eax = 300, c_ebx = 301, c_ecx = 302, c_edx = 303\<rparr>"

text \<open>
  One execution of the two calls at the same time, compiled with inline assembly: the first
  call's four stores and the second call's four stores, interleaved.
\<close>

definition sched_ab :: "(addr \<times> u32) list" where
  "sched_ab =
     [(100, 0x16), (300, 6), (301, 9), (101, 0x756E6547), (102, 0x6C65746E),
      (302, 0xF0F0F0F0), (303, 0), (103, 0x49656E69)]"

section \<open>Stores\<close>

lemma store_u32_valid:
  "valid_ptr s p \<Longrightarrow>
     store_u32 p v s = Inr (s\<lparr>heap := (heap s)(p \<mapsto> v), wlog := wlog s @ [(p, v)]\<rparr>)"
  by (auto simp: store_u32_def valid_ptr_def)

lemma store_u32_invalid:
  "\<not> valid_ptr s p \<Longrightarrow> store_u32 p v s = Inl Invalid_Pointer"
  by (simp add: store_u32_def valid_ptr_def)

lemma valid_ptr_after_store:
  "valid_ptr (s\<lparr>heap := (heap s)(p \<mapsto> v), wlog := l\<rparr>) q = (q = p \<or> valid_ptr s q)"
  by (simp add: valid_ptr_def)

text \<open>
  A sequence of stores through valid pointers runs to its end: the memory is updated store by
  store and the log grows by the sequence. By induction on the sequence, for every state.
\<close>

lemma stores_valid:
  "\<forall>p \<in> fst ` set ws. valid_ptr s p \<Longrightarrow>
     stores ws s =
       Inr (s\<lparr>heap := write_all ws (heap s), wlog := wlog s @ ws\<rparr>)"
proof (induction ws arbitrary: s)
  case Nil
  then show ?case by simp
next
  case (Cons w ws)
  obtain p v where w: "w = (p, v)" by (cases w)
  let ?s1 = "s\<lparr>heap := (heap s)(p \<mapsto> v), wlog := wlog s @ [(p, v)]\<rparr>"
  from Cons.prems w have "valid_ptr s p" by simp
  then have step: "store_u32 p v s = Inr ?s1" by (rule store_u32_valid)
  from Cons.prems have "\<forall>q \<in> fst ` set ws. valid_ptr ?s1 q"
    by (simp add: valid_ptr_after_store)
  then have "stores ws ?s1 =
      Inr (?s1\<lparr>heap := write_all ws (heap ?s1), wlog := wlog ?s1 @ ws\<rparr>)"
    by (rule Cons.IH)
  with step w show ?case by simp
qed

text \<open>A sequence of stores with an invalid pointer in it faults.\<close>

lemma stores_invalid:
  "\<exists>p \<in> fst ` set ws. \<not> valid_ptr s p \<Longrightarrow> stores ws s = Inl Invalid_Pointer"
proof (induction ws arbitrary: s)
  case Nil
  then show ?case by simp
next
  case (Cons w ws)
  obtain p v where w: "w = (p, v)" by (cases w)
  show ?case
  proof (cases "valid_ptr s p")
    case False
    with w show ?thesis by (simp add: store_u32_invalid)
  next
    case True
    let ?s1 = "s\<lparr>heap := (heap s)(p \<mapsto> v), wlog := wlog s @ [(p, v)]\<rparr>"
    from True have step: "store_u32 p v s = Inr ?s1" by (rule store_u32_valid)
    from Cons.prems w True obtain q where q: "q \<in> fst ` set ws" "\<not> valid_ptr s q"
      by auto
    with True have "q \<noteq> p" by auto
    with q have "\<exists>q \<in> fst ` set ws. \<not> valid_ptr ?s1 q"
      by (auto simp: valid_ptr_after_store)
    then have "stores ws ?s1 = Inl Invalid_Pointer" by (rule Cons.IH)
    with step w show ?thesis by simp
  qed
qed

text \<open>
  From here on a sequence of stores is rewritten by the two lemmas above, not unfolded.
\<close>

declare stores.simps [simp del]

text \<open>A location no store of the sequence names keeps its content.\<close>

lemma write_all_other:
  "p \<notin> fst ` set ws \<Longrightarrow> write_all ws h p = h p"
  by (induction ws arbitrary: h) auto

text \<open>
  A location some store of the sequence names ends with a value the sequence stored there
  (the last such store's).
\<close>

lemma write_all_written:
  "p \<in> fst ` set ws \<Longrightarrow> \<exists>v. (p, v) \<in> set ws \<and> write_all ws h p = Some v"
proof (induction ws arbitrary: h)
  case Nil
  then show ?case by simp
next
  case (Cons w ws)
  obtain q u where w: "w = (q, u)" by (cases w)
  show ?case
  proof (cases "p \<in> fst ` set ws")
    case True
    then obtain v where "(p, v) \<in> set ws" "write_all ws (h(q \<mapsto> u)) p = Some v"
      using Cons.IH by blast
    with w show ?thesis by auto
  next
    case False
    with Cons.prems w have "p = q" by auto
    with False w have "write_all (w # ws) h p = Some u"
      by (simp add: write_all_other)
    with w \<open>p = q\<close> show ?thesis by auto
  qed
qed

text \<open>Stores create and destroy no object.\<close>

lemma dom_write_all:
  "fst ` set ws \<subseteq> dom h \<Longrightarrow> dom (write_all ws h) = dom h"
proof (induction ws arbitrary: h)
  case Nil
  then show ?case by simp
next
  case (Cons w ws)
  obtain p v where w: "w = (p, v)" by (cases w)
  from Cons.prems w have same: "dom (h(p \<mapsto> v)) = dom h" by auto
  with Cons.prems have "fst ` set ws \<subseteq> dom (h(p \<mapsto> v))" by simp
  then have "dom (write_all ws (h(p \<mapsto> v))) = dom (h(p \<mapsto> v))" by (rule Cons.IH)
  with same w show ?case by simp
qed

section \<open>The three bodies on valid pointers\<close>

lemma cpuid_raw_intrinsic_valid:
  assumes "valid_ptr s eax" "valid_ptr s ebx" "valid_ptr s ecx" "valid_ptr s edx"
  shows "cpuid_raw_intrinsic hw r0 leaf subleaf eax ebx ecx edx s =
     (let regs = cpuidex hw r0 (int_of_u32 leaf) (int_of_u32 subleaf);
          ws = [(eax, u32_of_int (regs ! 0)), (ebx, u32_of_int (regs ! 1)),
                (ecx, u32_of_int (regs ! 2)), (edx, u32_of_int (regs ! 3))]
      in Inr (s\<lparr>heap := write_all ws (heap s), wlog := wlog s @ ws\<rparr>))"
  using assms by (simp add: cpuid_raw_intrinsic_def Let_def stores_valid)

lemma cpuid_raw_asm_valid:
  assumes "valid_ptr s eax" "valid_ptr s ebx" "valid_ptr s ecx" "valid_ptr s edx"
  shows "cpuid_raw_asm hw r0 leaf subleaf eax ebx ecx edx s =
     (let r = cpuid_insn hw (r0(EAX := leaf, ECX := subleaf));
          ws = [(eax, r EAX), (ebx, r EBX), (ecx, r ECX), (edx, r EDX)]
      in Inr (s\<lparr>heap := write_all ws (heap s), wlog := wlog s @ ws\<rparr>))"
  using assms by (simp add: cpuid_raw_asm_def Let_def stores_valid)

lemma cpuid_raw_zero_valid:
  assumes "valid_ptr s eax" "valid_ptr s ebx" "valid_ptr s ecx" "valid_ptr s edx"
  shows "cpuid_raw_zero hw r0 leaf subleaf eax ebx ecx edx s =
     (let ws = [(edx, 0), (ecx, 0), (ebx, 0), (eax, 0)]
      in Inr (s\<lparr>heap := write_all ws (heap s), wlog := wlog s @ ws\<rparr>))"
  using assms by (simp add: cpuid_raw_zero_def Let_def stores_valid)

text \<open>
  Whatever the toolchain, the compiled function is a sequence of four stores, one through each
  pointer, and on valid pointers it runs to its end.
\<close>

lemma cpuid_raw_four_stores:
  assumes "valid_ptr s eax" "valid_ptr s ebx" "valid_ptr s ecx" "valid_ptr s edx"
  shows "\<exists>ws. cpuid_raw tc hw r0 leaf subleaf eax ebx ecx edx s =
               Inr (s\<lparr>heap := write_all ws (heap s), wlog := wlog s @ ws\<rparr>)
            \<and> length ws = 4 \<and> fst ` set ws = {eax, ebx, ecx, edx}"
proof (cases "preprocess tc")
  case Intrinsic
  with assms show ?thesis
    by (simp add: cpuid_raw_def cpuid_raw_intrinsic_valid Let_def del: write_all.simps)
      (rule exI, rule conjI, rule refl, auto)
next
  case Inline_Asm
  with assms show ?thesis
    by (simp add: cpuid_raw_def cpuid_raw_asm_valid Let_def del: write_all.simps)
      (rule exI, rule conjI, rule refl, auto)
next
  case Zero_Fallback
  with assms show ?thesis
    by (simp add: cpuid_raw_def cpuid_raw_zero_valid Let_def del: write_all.simps)
      (rule exI, rule conjI, rule refl, auto)
qed

lemma new_stores_append [simp]:
  "new_stores s (s\<lparr>heap := h, wlog := wlog s @ ws\<rparr>) = ws"
  by (simp add: new_stores_def)

lemma preprocess_fallback:
  "fallback_config tc \<Longrightarrow> preprocess tc = Zero_Fallback"
  by (simp add: fallback_config_def preprocess_def)

section \<open>What a call stores\<close>

text \<open>The condition of each of the first two branches selects it.\<close>

lemma preprocess_msc: "def_MSC_VER tc \<Longrightarrow> preprocess tc = Intrinsic"
  by (simp add: preprocess_def)

lemma preprocess_asm:
  "\<not> def_MSC_VER tc \<Longrightarrow> def_GNUC tc \<or> def_clang tc \<Longrightarrow> preprocess tc = Inline_Asm"
  by (simp add: preprocess_def)

text \<open>
  Four stores through pairwise different pointers leave each value where its pointer points.
\<close>

lemma write_all4_distinct:
  assumes "distinct [p1, p2, p3, p4]"
  shows "map (write_all [(p1, v1), (p2, v2), (p3, v3), (p4, v4)] h) [p1, p2, p3, p4] =
           [Some v1, Some v2, Some v3, Some v4]"
  using assms by auto

lemma outputs_after:
  "outputs eax ebx ecx edx (s\<lparr>heap := h, wlog := l\<rparr>) = map h [eax, ebx, ecx, edx]"
  by (simp add: outputs_def)

text \<open>The registers after the instruction, from the registers before it.\<close>

lemma cpuid_insn_regs:
  "cpuid_insn hw r EAX = fst (hw (r EAX) (r ECX))"
  "cpuid_insn hw r EBX = fst (snd (hw (r EAX) (r ECX)))"
  "cpuid_insn hw r ECX = fst (snd (snd (hw (r EAX) (r ECX))))"
  "cpuid_insn hw r EDX = snd (snd (snd (hw (r EAX) (r ECX))))"
  by (simp_all add: cpuid_insn_def split: prod.split)

text \<open>
  The two conversions: into \<^verbatim>\<open>uint32_t\<close> is reduction modulo \<open>2^32\<close>; into
  \<^verbatim>\<open>int\<close> gives a value of the \<^verbatim>\<open>int\<close> range, congruent modulo \<open>2^32\<close>; and there
  and back is the identity.
\<close>

lemma uint_u32_of_int: "uint (u32_of_int k) = k mod 2 ^ 32"
  by (simp add: u32_of_int_def uint_word_of_int)

lemma int_of_u32_range: "- (2 ^ 31) \<le> int_of_u32 w \<and> int_of_u32 w < 2 ^ 31"
  using sint_ge [of w] sint_lt [of w] by (simp add: int_of_u32_def)

lemma int_of_u32_mod: "int_of_u32 w mod 2 ^ 32 = uint w"
  using uint_word_of_int [of "sint w", where 'a = 32] by (simp add: int_of_u32_def)

lemma u32_of_int_of_u32: "u32_of_int (int_of_u32 w) = w"
  by (simp add: u32_of_int_def int_of_u32_def)

text \<open>
  The array the intrinsic fills holds \<^verbatim>\<open>int\<close> values, and converted back they are the
  four words the processor reports for the selectors the function was given.
\<close>

lemma cpuidex_range:
  "\<forall>x \<in> set (cpuidex hw r0 f sf). - (2 ^ 31) \<le> x \<and> x < 2 ^ 31"
  using int_of_u32_range by (simp add: cpuidex_def Let_def int_of_u32_def)

lemma cpuidex_round_trip:
  "map u32_of_int (cpuidex hw r0 (int_of_u32 leaf) (int_of_u32 subleaf)) =
     (case hw leaf subleaf of (a, b, c, d) \<Rightarrow> [a, b, c, d])"
  by (simp add: cpuidex_def Let_def cpuid_insn_regs u32_of_int_def int_of_u32_def
      split: prod.split)

text \<open>
  What a location named by some store of the sequence holds afterwards depends on the
  sequence alone, not on the memory before.
\<close>

lemma write_all_cong:
  "(p \<notin> fst ` set ws \<Longrightarrow> h1 p = h2 p) \<Longrightarrow> write_all ws h1 p = write_all ws h2 p"
proof (induction ws arbitrary: h1 h2)
  case Nil
  then show ?case by simp
next
  case (Cons w ws)
  obtain q u where w: "w = (q, u)" by (cases w)
  have "write_all ws (h1(q \<mapsto> u)) p = write_all ws (h2(q \<mapsto> u)) p"
  proof (rule Cons.IH)
    assume "p \<notin> fst ` set ws"
    show "(h1(q \<mapsto> u)) p = (h2(q \<mapsto> u)) p"
    proof (cases "p = q")
      case True
      then show ?thesis by simp
    next
      case False
      with \<open>p \<notin> fst ` set ws\<close> w have "p \<notin> fst ` set (w # ws)" by simp
      then have "h1 p = h2 p" by (rule Cons.prems)
      with False show ?thesis by simp
    qed
  qed
  with w show ?case by simp
qed

text \<open>Four stores of zero leave the same memory in either order.\<close>

lemma write_all_zero_order:
  "write_all [(edx, 0), (ecx, 0), (ebx, 0), (eax, 0)] h =
   write_all [(eax, 0), (ebx, 0), (ecx, 0), (edx, 0)] h"
  by (rule ext) simp

text \<open>
  The four values of a call are fixed by the toolchain, the processor and the selector pair:
  whatever the registers held, whatever the pointers and the memory, the call stores these
  four values, and the memory on return is the memory before with them written through
  \<open>eax\<close>, \<open>ebx\<close>, \<open>ecx\<close>, \<open>edx\<close>.
\<close>

lemma cpuid_raw_values:
  "\<exists>a b c d. \<forall>r0 eax ebx ecx edx s.
      valid_ptr s eax \<longrightarrow> valid_ptr s ebx \<longrightarrow> valid_ptr s ecx \<longrightarrow> valid_ptr s edx \<longrightarrow>
      (\<exists>s'. cpuid_raw tc hw r0 leaf subleaf eax ebx ecx edx s = Inr s'
           \<and> heap s' = write_all [(eax, a), (ebx, b), (ecx, c), (edx, d)] (heap s)
           \<and> map snd (new_stores s s') = [a, b, c, d])"
proof (cases "preprocess tc")
  case Intrinsic
  obtain a b c d where hw: "hw leaf subleaf = (a, b, c, d)"
    by (cases "hw leaf subleaf") auto
  have vals: "cpuidex hw r0 (int_of_u32 leaf) (int_of_u32 subleaf) =
      [sint a, sint b, sint c, sint d]" for r0
    by (simp add: cpuidex_def Let_def cpuid_insn_regs int_of_u32_def hw)
  show ?thesis
    by (rule exI [of _ a], rule exI [of _ b], rule exI [of _ c], rule exI [of _ d])
      (simp add: cpuid_raw_def Intrinsic cpuid_raw_intrinsic_valid Let_def vals u32_of_int_def
        del: write_all.simps)
next
  case Inline_Asm
  obtain a b c d where hw: "hw leaf subleaf = (a, b, c, d)"
    by (cases "hw leaf subleaf") auto
  show ?thesis
    by (rule exI [of _ a], rule exI [of _ b], rule exI [of _ c], rule exI [of _ d])
      (simp add: cpuid_raw_def Inline_Asm cpuid_raw_asm_valid Let_def cpuid_insn_regs hw
        del: write_all.simps)
next
  case Zero_Fallback
  show ?thesis
    by (rule exI [of _ 0], rule exI [of _ 0], rule exI [of _ 0], rule exI [of _ 0])
      (simp add: cpuid_raw_def Zero_Fallback cpuid_raw_zero_valid Let_def write_all_zero_order
        del: write_all.simps)
qed

section \<open>The fallback branch\<close>

text \<open>
  C1. In the fallback configuration (no macro of the chain defined), for every pair
  (leaf, subleaf), every processor and every register content, a call with four valid output
  pointers returns normally and leaves zero in all four output locations; the pointers may
  even coincide. The pair (0, 0) is an instance.
\<close>

theorem fallback_returns_zeros:
  assumes "fallback_config tc"
    and "valid_ptr s eax" and "valid_ptr s ebx" and "valid_ptr s ecx" and "valid_ptr s edx"
  shows "\<exists>s'. cpuid_raw tc hw r0 leaf subleaf eax ebx ecx edx s = Inr s'
            \<and> outputs eax ebx ecx edx s' = [Some 0, Some 0, Some 0, Some 0]
            \<and> snd ` set (new_stores s s') = {0}"
  using assms
  by (simp add: cpuid_raw_def preprocess_fallback cpuid_raw_zero_valid outputs_def)

lemma sample_state_valid:
  "valid_ptr sample_state 100" "valid_ptr sample_state 101"
  "valid_ptr sample_state 102" "valid_ptr sample_state 103"
  by (simp_all add: valid_ptr_def sample_state_def)

theorem fallback_returns_zeros_witness:
  "fallback_config other_cc \<and> valid_ptr sample_state 100 \<and> valid_ptr sample_state 101
   \<and> valid_ptr sample_state 102 \<and> valid_ptr sample_state 103
   \<and> (\<exists>s'. cpuid_raw other_cc sample_cpu sample_regs 0 0 100 101 102 103 sample_state = Inr s'
            \<and> outputs 100 101 102 103 s' = [Some 0, Some 0, Some 0, Some 0]
            \<and> snd ` set (new_stores sample_state s') = {0})"
proof -
  have c: "fallback_config other_cc"
    by (simp add: fallback_config_def other_cc_def)
  note v = sample_state_valid
  from fallback_returns_zeros [OF c v, of sample_cpu sample_regs 0 0]
  show ?thesis using c v by (intro conjI)
qed

section \<open>Every branch\<close>

text \<open>
  C2. On each of the three branches and for every pair (leaf, subleaf), a call with four valid
  output pointers returns normally (it does not fault), it has stored through each of the four
  pointers, and on return every output location holds a value this call stored there. What
  the outputs hold on return does not depend on what the memory held before: from any other
  memory the same call leaves the same four outputs. No output is left with its earlier
  content.
\<close>

theorem all_four_outputs_written:
  assumes "valid_ptr s eax" and "valid_ptr s ebx" and "valid_ptr s ecx" and "valid_ptr s edx"
  shows "\<exists>s'. cpuid_raw tc hw r0 leaf subleaf eax ebx ecx edx s = Inr s'
            \<and> {eax, ebx, ecx, edx} \<subseteq> fst ` set (new_stores s s')
            \<and> (\<forall>p \<in> {eax, ebx, ecx, edx}.
                  \<exists>v. (p, v) \<in> set (new_stores s s') \<and> heap s' p = Some v)
            \<and> (\<forall>s0. valid_ptr s0 eax \<and> valid_ptr s0 ebx \<and> valid_ptr s0 ecx \<and> valid_ptr s0 edx
                  \<longrightarrow> (\<exists>s0'. cpuid_raw tc hw r0 leaf subleaf eax ebx ecx edx s0 = Inr s0'
                         \<and> outputs eax ebx ecx edx s0' = outputs eax ebx ecx edx s'))"
proof -
  from cpuid_raw_four_stores [OF assms] obtain ws where
    run: "cpuid_raw tc hw r0 leaf subleaf eax ebx ecx edx s =
            Inr (s\<lparr>heap := write_all ws (heap s), wlog := wlog s @ ws\<rparr>)"
    and ptrs: "fst ` set ws = {eax, ebx, ecx, edx}"
    by blast
  let ?s' = "s\<lparr>heap := write_all ws (heap s), wlog := wlog s @ ws\<rparr>"
  have written: "\<exists>v. (p, v) \<in> set (new_stores s ?s') \<and> heap ?s' p = Some v"
    if "p \<in> {eax, ebx, ecx, edx}" for p
  proof -
    from that ptrs have "p \<in> fst ` set ws" by simp
    then show ?thesis using write_all_written [of p ws "heap s"] by simp
  qed
  from cpuid_raw_values [of tc hw leaf subleaf] obtain a b c d where
    every: "\<forall>r0 eax ebx ecx edx s.
      valid_ptr s eax \<longrightarrow> valid_ptr s ebx \<longrightarrow> valid_ptr s ecx \<longrightarrow> valid_ptr s edx \<longrightarrow>
      (\<exists>s'. cpuid_raw tc hw r0 leaf subleaf eax ebx ecx edx s = Inr s'
           \<and> heap s' = write_all [(eax, a), (ebx, b), (ecx, c), (edx, d)] (heap s)
           \<and> map snd (new_stores s s') = [a, b, c, d])"
    by (elim exE)
  note vals = every [rule_format]
  let ?vs = "[(eax, a), (ebx, b), (ecx, c), (edx, d)]"
  from vals [OF assms, of r0] run have here: "heap ?s' = write_all ?vs (heap s)"
    by (elim exE conjE) simp
  have fresh: "\<exists>s0'. cpuid_raw tc hw r0 leaf subleaf eax ebx ecx edx s0 = Inr s0'
                 \<and> outputs eax ebx ecx edx s0' = outputs eax ebx ecx edx ?s'"
    if "valid_ptr s0 eax \<and> valid_ptr s0 ebx \<and> valid_ptr s0 ecx \<and> valid_ptr s0 edx" for s0
  proof -
    from that have v0: "valid_ptr s0 eax" "valid_ptr s0 ebx" "valid_ptr s0 ecx" "valid_ptr s0 edx"
      by simp_all
    from vals [OF v0, of r0] obtain s0' where
      run0: "cpuid_raw tc hw r0 leaf subleaf eax ebx ecx edx s0 = Inr s0'"
      and heap0: "heap s0' = write_all ?vs (heap s0)"
      by (elim exE conjE)
    have "write_all ?vs (heap s0) p = write_all ?vs (heap s) p"
      if "p \<in> {eax, ebx, ecx, edx}" for p
      by (rule write_all_cong) (use that in simp)
    then have "outputs eax ebx ecx edx s0' = outputs eax ebx ecx edx ?s'"
      unfolding outputs_def heap0 here by simp
    with run0 show ?thesis by (intro exI [of _ s0'] conjI)
  qed
  have cover: "{eax, ebx, ecx, edx} \<subseteq> fst ` set (new_stores s ?s')"
    using ptrs by simp
  have held: "\<forall>p \<in> {eax, ebx, ecx, edx}.
      \<exists>v. (p, v) \<in> set (new_stores s ?s') \<and> heap ?s' p = Some v"
    by (intro ballI written)
  have anew: "\<forall>s0. valid_ptr s0 eax \<and> valid_ptr s0 ebx \<and> valid_ptr s0 ecx \<and> valid_ptr s0 edx
      \<longrightarrow> (\<exists>s0'. cpuid_raw tc hw r0 leaf subleaf eax ebx ecx edx s0 = Inr s0'
             \<and> outputs eax ebx ecx edx s0' = outputs eax ebx ecx edx ?s')"
    by (intro allI impI fresh)
  show ?thesis
    by (rule exI [of _ ?s'], intro conjI run cover held anew)
qed

theorem all_four_outputs_written_witness:
  "valid_ptr sample_state 100 \<and> valid_ptr sample_state 101
   \<and> valid_ptr sample_state 102 \<and> valid_ptr sample_state 103
   \<and> valid_ptr shared_state 100 \<and> valid_ptr shared_state 101
   \<and> valid_ptr shared_state 102 \<and> valid_ptr shared_state 103
   \<and> (\<exists>s' s0'. cpuid_raw gcc sample_cpu sample_regs 0 0 100 101 102 103 sample_state = Inr s'
            \<and> {100, 101, 102, 103} \<subseteq> fst ` set (new_stores sample_state s')
            \<and> (\<forall>p \<in> {100, 101, 102, 103}.
                  \<exists>v. (p, v) \<in> set (new_stores sample_state s') \<and> heap s' p = Some v)
            \<and> cpuid_raw gcc sample_cpu sample_regs 0 0 100 101 102 103 shared_state = Inr s0'
            \<and> outputs 100 101 102 103 s0' = outputs 100 101 102 103 s')"
proof -
  note v = sample_state_valid
  have w: "valid_ptr shared_state 100" "valid_ptr shared_state 101"
    "valid_ptr shared_state 102" "valid_ptr shared_state 103"
    by (simp_all add: valid_ptr_def shared_state_def)
  from all_four_outputs_written [OF v, of gcc sample_cpu sample_regs 0 0]
  obtain s' where
    run: "cpuid_raw gcc sample_cpu sample_regs 0 0 100 101 102 103 sample_state = Inr s'"
    and cover: "{100, 101, 102, 103} \<subseteq> fst ` set (new_stores sample_state s')"
    and held: "\<forall>p \<in> {100, 101, 102, 103}.
       \<exists>v. (p, v) \<in> set (new_stores sample_state s') \<and> heap s' p = Some v"
    and fresh: "\<forall>s0. valid_ptr s0 100 \<and> valid_ptr s0 101 \<and> valid_ptr s0 102 \<and> valid_ptr s0 103
       \<longrightarrow> (\<exists>s0'. cpuid_raw gcc sample_cpu sample_regs 0 0 100 101 102 103 s0 = Inr s0'
              \<and> outputs 100 101 102 103 s0' = outputs 100 101 102 103 s')"
    by (elim exE conjE)
  from fresh [rule_format, OF conjI [OF w(1) conjI [OF w(2) conjI [OF w(3) w(4)]]]]
  obtain s0' where
    run0: "cpuid_raw gcc sample_cpu sample_regs 0 0 100 101 102 103 shared_state = Inr s0'"
    and same: "outputs 100 101 102 103 s0' = outputs 100 101 102 103 s'"
    by (elim exE conjE)
  have "\<exists>s' s0'. cpuid_raw gcc sample_cpu sample_regs 0 0 100 101 102 103 sample_state = Inr s'
            \<and> {100, 101, 102, 103} \<subseteq> fst ` set (new_stores sample_state s')
            \<and> (\<forall>p \<in> {100, 101, 102, 103}.
                  \<exists>v. (p, v) \<in> set (new_stores sample_state s') \<and> heap s' p = Some v)
            \<and> cpuid_raw gcc sample_cpu sample_regs 0 0 100 101 102 103 shared_state = Inr s0'
            \<and> outputs 100 101 102 103 s0' = outputs 100 101 102 103 s'"
    by (rule exI [of _ s'], rule exI [of _ s0'], intro conjI run cover held run0 same)
  with v w show ?thesis by (intro conjI)
qed

text \<open>
  C7. On each of the three branches, for every pair (leaf, subleaf) and every processor
  (whatever it answers for the leaf), a call with four valid output pointers returns: the
  function is a straight line of four stores, with no loop and no recursion, and it has
  executed exactly four stores when it returns.
\<close>

theorem cpuid_raw_returns:
  assumes "valid_ptr s eax" and "valid_ptr s ebx" and "valid_ptr s ecx" and "valid_ptr s edx"
  shows "\<exists>s'. cpuid_raw tc hw r0 leaf subleaf eax ebx ecx edx s = Inr s'
            \<and> length (new_stores s s') = 4"
proof -
  from cpuid_raw_four_stores [OF assms] obtain ws where
    "cpuid_raw tc hw r0 leaf subleaf eax ebx ecx edx s =
       Inr (s\<lparr>heap := write_all ws (heap s), wlog := wlog s @ ws\<rparr>)"
    and "length ws = 4"
    by blast
  then show ?thesis by simp
qed


theorem cpuid_raw_returns_witness:
  "valid_ptr sample_state 100 \<and> valid_ptr sample_state 101
   \<and> valid_ptr sample_state 102 \<and> valid_ptr sample_state 103
   \<and> (\<exists>s'. cpuid_raw msvc sample_cpu sample_regs 0xFFFFFFFF 0xFFFFFFFF 100 101 102 103
               sample_state = Inr s'
            \<and> length (new_stores sample_state s') = 4)"
proof -
  note v = sample_state_valid
  from cpuid_raw_returns [OF v, of msvc sample_cpu sample_regs "0xFFFFFFFF" "0xFFFFFFFF"]
  show ?thesis using v by (intro conjI)
qed

text \<open>
  C8. A call with four valid output pointers changes nothing but the four output locations:
  every other location keeps its content, the set of existing objects is the same (nothing is
  allocated or freed), every store of the call goes through one of the four pointers, and the
  stores recorded before the call are kept as they were.
\<close>

theorem cpuid_raw_frame:
  assumes "valid_ptr s eax" and "valid_ptr s ebx" and "valid_ptr s ecx" and "valid_ptr s edx"
  shows "\<exists>s'. cpuid_raw tc hw r0 leaf subleaf eax ebx ecx edx s = Inr s'
            \<and> (\<forall>a. a \<notin> {eax, ebx, ecx, edx} \<longrightarrow> heap s' a = heap s a)
            \<and> dom (heap s') = dom (heap s)
            \<and> fst ` set (new_stores s s') \<subseteq> {eax, ebx, ecx, edx}
            \<and> take (length (wlog s)) (wlog s') = wlog s"
proof -
  from cpuid_raw_four_stores [OF assms] obtain ws where
    run: "cpuid_raw tc hw r0 leaf subleaf eax ebx ecx edx s =
            Inr (s\<lparr>heap := write_all ws (heap s), wlog := wlog s @ ws\<rparr>)"
    and ptrs: "fst ` set ws = {eax, ebx, ecx, edx}"
    by blast
  from assms ptrs have "fst ` set ws \<subseteq> dom (heap s)"
    by (auto simp: valid_ptr_def)
  then have "dom (write_all ws (heap s)) = dom (heap s)"
    by (rule dom_write_all)
  moreover have "write_all ws (heap s) a = heap s a" if "a \<notin> {eax, ebx, ecx, edx}" for a
    using that ptrs by (simp add: write_all_other)
  ultimately show ?thesis using run ptrs by simp
qed


theorem cpuid_raw_frame_witness:
  "valid_ptr sample_state 100 \<and> valid_ptr sample_state 101
   \<and> valid_ptr sample_state 102 \<and> valid_ptr sample_state 103
   \<and> (\<exists>s'. cpuid_raw gcc sample_cpu sample_regs 0 0 100 101 102 103 sample_state = Inr s'
            \<and> heap s' 200 = Some 0x12345678
            \<and> heap s' 0 = None
            \<and> fst ` set (new_stores sample_state s') \<subseteq> {100, 101, 102, 103})"
proof -
  note v = sample_state_valid
  from cpuid_raw_frame [OF v, of gcc sample_cpu sample_regs 0 0]
  obtain s' where run:
    "cpuid_raw gcc sample_cpu sample_regs 0 0 100 101 102 103 sample_state = Inr s'"
    and other: "\<forall>a. a \<notin> {100, 101, 102, 103} \<longrightarrow> heap s' a = heap sample_state a"
    and only: "fst ` set (new_stores sample_state s') \<subseteq> {100, 101, 102, 103}"
    by (elim exE conjE)
  from other have "heap s' 200 = heap sample_state 200" "heap s' 0 = heap sample_state 0"
    by simp_all
  then have rest: "heap s' 200 = Some 0x12345678" "heap s' 0 = None"
    by (simp_all add: sample_state_def)
  have "\<exists>s'. cpuid_raw gcc sample_cpu sample_regs 0 0 100 101 102 103 sample_state = Inr s'
            \<and> heap s' 200 = Some 0x12345678
            \<and> heap s' 0 = None
            \<and> fst ` set (new_stores sample_state s') \<subseteq> {100, 101, 102, 103}"
    by (rule exI [of _ s'], intro conjI run rest only)
  with v show ?thesis by (intro conjI)
qed

section \<open>The intrinsic branch\<close>

text \<open>
  C4. On the intrinsic branch (\<^verbatim>\<open>_MSC_VER\<close> defined) the function calls the intrinsic once,
  with \<open>leaf\<close> and \<open>subleaf\<close> as its two \<^verbatim>\<open>int\<close> arguments, and stores the four
  elements of the array it filled in index order: element 0 through \<open>eax\<close>, 1 through
  \<open>ebx\<close>, 2 through \<open>ecx\<close>, 3 through \<open>edx\<close>; these are the call's only stores,
  and with pairwise different pointers they are what the caller reads back.
\<close>

theorem intrinsic_unpacks_in_order:
  assumes "def_MSC_VER tc"
    and "valid_ptr s eax" and "valid_ptr s ebx" and "valid_ptr s ecx" and "valid_ptr s edx"
    and "regs = cpuidex hw r0 (int_of_u32 leaf) (int_of_u32 subleaf)"
  shows "\<exists>s'. cpuid_raw tc hw r0 leaf subleaf eax ebx ecx edx s = Inr s'
            \<and> length regs = 4
            \<and> new_stores s s' =
                [(eax, u32_of_int (regs ! 0)), (ebx, u32_of_int (regs ! 1)),
                 (ecx, u32_of_int (regs ! 2)), (edx, u32_of_int (regs ! 3))]
            \<and> (distinct [eax, ebx, ecx, edx] \<longrightarrow>
                 outputs eax ebx ecx edx s' =
                   [Some (u32_of_int (regs ! 0)), Some (u32_of_int (regs ! 1)),
                    Some (u32_of_int (regs ! 2)), Some (u32_of_int (regs ! 3))])"
proof -
  have len: "length regs = 4"
    by (simp add: assms(6) cpuidex_def Let_def)
  let ?ws = "[(eax, u32_of_int (regs ! 0)), (ebx, u32_of_int (regs ! 1)),
              (ecx, u32_of_int (regs ! 2)), (edx, u32_of_int (regs ! 3))]"
  let ?s' = "s\<lparr>heap := write_all ?ws (heap s), wlog := wlog s @ ?ws\<rparr>"
  have run: "cpuid_raw tc hw r0 leaf subleaf eax ebx ecx edx s = Inr ?s'"
    using assms(1-5)
    by (simp add: cpuid_raw_def preprocess_msc cpuid_raw_intrinsic_valid Let_def assms(6)
        del: write_all.simps)
  have "outputs eax ebx ecx edx ?s' =
          [Some (u32_of_int (regs ! 0)), Some (u32_of_int (regs ! 1)),
           Some (u32_of_int (regs ! 2)), Some (u32_of_int (regs ! 3))]"
    if "distinct [eax, ebx, ecx, edx]"
    using write_all4_distinct [OF that] by (simp only: outputs_after)
  with run len show ?thesis by (intro exI [of _ ?s']) (simp del: write_all.simps distinct.simps)
qed


text \<open>What the intrinsic leaves in the array on the sample processor for the pair (5, 7).\<close>

lemma sample_regs_filled:
  "cpuidex sample_cpu sample_regs (int_of_u32 5) (int_of_u32 7) =
     [- 2147483643, - 1, 7, - 2147483647]"
  by (simp add: cpuidex_def cpuid_insn_def sample_cpu_def int_of_u32_def Let_def)

theorem intrinsic_unpacks_in_order_witness:
  "def_MSC_VER msvc \<and> valid_ptr sample_state 100 \<and> valid_ptr sample_state 101
   \<and> valid_ptr sample_state 102 \<and> valid_ptr sample_state 103
   \<and> cpuidex sample_cpu sample_regs (int_of_u32 5) (int_of_u32 7) =
        [- 2147483643, - 1, 7, - 2147483647]
   \<and> (\<exists>s'. cpuid_raw msvc sample_cpu sample_regs 5 7 100 101 102 103 sample_state = Inr s'
            \<and> new_stores sample_state s' =
                 [(100, 0x80000005), (101, 0xFFFFFFFF), (102, 7), (103, 0x80000001)]
            \<and> outputs 100 101 102 103 s' =
                 [Some 0x80000005, Some 0xFFFFFFFF, Some 7, Some 0x80000001])"
proof -
  have m: "def_MSC_VER msvc" by (simp add: msvc_def)
  note v = sample_state_valid
  note r = sample_regs_filled
  from intrinsic_unpacks_in_order [OF m v r [symmetric]]
  obtain s' where run:
    "cpuid_raw msvc sample_cpu sample_regs 5 7 100 101 102 103 sample_state = Inr s'"
    and log: "new_stores sample_state s' =
      [(100, u32_of_int ([- 2147483643, - 1, 7, - 2147483647] ! 0)),
       (101, u32_of_int ([- 2147483643, - 1, 7, - 2147483647] ! 1)),
       (102, u32_of_int ([- 2147483643, - 1, 7, - 2147483647] ! 2)),
       (103, u32_of_int ([- 2147483643, - 1, 7, - 2147483647] ! 3))]"
    and out: "distinct [100, 101, 102, 103 :: addr] \<longrightarrow>
      outputs 100 101 102 103 s' =
        [Some (u32_of_int ([- 2147483643, - 1, 7, - 2147483647] ! 0)),
         Some (u32_of_int ([- 2147483643, - 1, 7, - 2147483647] ! 1)),
         Some (u32_of_int ([- 2147483643, - 1, 7, - 2147483647] ! 2)),
         Some (u32_of_int ([- 2147483643, - 1, 7, - 2147483647] ! 3))]"
    by (elim exE conjE)
  from log have log': "new_stores sample_state s' =
      [(100, 0x80000005), (101, 0xFFFFFFFF), (102, 7), (103, 0x80000001)]"
    by (simp add: u32_of_int_def)
  from out have out': "outputs 100 101 102 103 s' =
      [Some 0x80000005, Some 0xFFFFFFFF, Some 7, Some 0x80000001]"
    by (simp add: u32_of_int_def)
  have "\<exists>s'. cpuid_raw msvc sample_cpu sample_regs 5 7 100 101 102 103 sample_state = Inr s'
            \<and> new_stores sample_state s' =
                 [(100, 0x80000005), (101, 0xFFFFFFFF), (102, 7), (103, 0x80000001)]
            \<and> outputs 100 101 102 103 s' =
                 [Some 0x80000005, Some 0xFFFFFFFF, Some 7, Some 0x80000001]"
    by (rule exI [of _ s'], intro conjI run log' out')
  with m v r show ?thesis by (intro conjI)
qed

section \<open>The inline assembly branch\<close>

text \<open>
  C5. On the inline assembly branch (\<^verbatim>\<open>_MSC_VER\<close> not defined, \<^verbatim>\<open>__GNUC__\<close> or
  \<^verbatim>\<open>__clang__\<close> defined) the function executes the one \<^verbatim>\<open>cpuid\<close> instruction with
  \<open>leaf\<close> in EAX and \<open>subleaf\<close> in ECX, whatever the other registers held, and the
  caller reads back EAX, EBX, ECX and EDX, in this order, from the four (pairwise different)
  output locations: together they are what the processor reports for (leaf, subleaf).
\<close>

theorem asm_binds_registers:
  assumes "\<not> def_MSC_VER tc" and "def_GNUC tc \<or> def_clang tc"
    and "valid_ptr s eax" and "valid_ptr s ebx" and "valid_ptr s ecx" and "valid_ptr s edx"
    and "distinct [eax, ebx, ecx, edx]"
    and "r = cpuid_insn hw (r0(EAX := leaf, ECX := subleaf))"
  shows "\<exists>s'. cpuid_raw tc hw r0 leaf subleaf eax ebx ecx edx s = Inr s'
            \<and> outputs eax ebx ecx edx s' = [Some (r EAX), Some (r EBX), Some (r ECX), Some (r EDX)]
            \<and> (r EAX, r EBX, r ECX, r EDX) = hw leaf subleaf"
proof -
  let ?ws = "[(eax, r EAX), (ebx, r EBX), (ecx, r ECX), (edx, r EDX)]"
  let ?s' = "s\<lparr>heap := write_all ?ws (heap s), wlog := wlog s @ ?ws\<rparr>"
  have run: "cpuid_raw tc hw r0 leaf subleaf eax ebx ecx edx s = Inr ?s'"
    using assms(1-6)
    by (simp add: cpuid_raw_def preprocess_asm cpuid_raw_asm_valid Let_def assms(8)
        del: write_all.simps)
  have out: "outputs eax ebx ecx edx ?s' =
               [Some (r EAX), Some (r EBX), Some (r ECX), Some (r EDX)]"
    using write_all4_distinct [OF assms(7)] by (simp only: outputs_after)
  have insn: "(r EAX, r EBX, r ECX, r EDX) = hw leaf subleaf"
    by (simp add: assms(8) cpuid_insn_regs)
  from run out insn show ?thesis by (intro exI [of _ ?s'] conjI)
qed

theorem asm_binds_registers_witness:
  "\<not> def_MSC_VER gcc \<and> (def_GNUC gcc \<or> def_clang gcc)
   \<and> valid_ptr sample_state 100 \<and> valid_ptr sample_state 101
   \<and> valid_ptr sample_state 102 \<and> valid_ptr sample_state 103
   \<and> distinct [100, 101, 102, 103 :: addr]
   \<and> (\<exists>s'. cpuid_raw gcc sample_cpu sample_regs 5 7 100 101 102 103 sample_state = Inr s'
            \<and> outputs 100 101 102 103 s' =
                 [Some 0x80000005, Some 0xFFFFFFFF, Some 7, Some 0x80000001])
   \<and> sample_cpu 5 7 = (0x80000005, 0xFFFFFFFF, 7, 0x80000001)"
proof -
  have g: "\<not> def_MSC_VER gcc" "def_GNUC gcc \<or> def_clang gcc" by (simp_all add: gcc_def)
  note v = sample_state_valid
  have d: "distinct [100, 101, 102, 103 :: addr]" by simp
  have hw: "sample_cpu 5 7 = (0x80000005, 0xFFFFFFFF, 7, 0x80000001)"
    by (simp add: sample_cpu_def)
  from asm_binds_registers [OF g v d refl, of sample_cpu sample_regs 5 7]
  obtain s' where run:
    "cpuid_raw gcc sample_cpu sample_regs 5 7 100 101 102 103 sample_state = Inr s'"
    and out: "outputs 100 101 102 103 s' =
      [Some (cpuid_insn sample_cpu (sample_regs(EAX := 5, ECX := 7)) EAX),
       Some (cpuid_insn sample_cpu (sample_regs(EAX := 5, ECX := 7)) EBX),
       Some (cpuid_insn sample_cpu (sample_regs(EAX := 5, ECX := 7)) ECX),
       Some (cpuid_insn sample_cpu (sample_regs(EAX := 5, ECX := 7)) EDX)]"
    by (elim exE conjE)
  from out hw have out': "outputs 100 101 102 103 s' =
      [Some 0x80000005, Some 0xFFFFFFFF, Some 7, Some 0x80000001]"
    by (simp add: cpuid_insn_regs)
  have "\<exists>s'. cpuid_raw gcc sample_cpu sample_regs 5 7 100 101 102 103 sample_state = Inr s'
            \<and> outputs 100 101 102 103 s' =
                 [Some 0x80000005, Some 0xFFFFFFFF, Some 7, Some 0x80000001]"
    by (rule exI [of _ s'], intro conjI run out')
  with g v d hw show ?thesis by (intro conjI)
qed

section \<open>The dispatch\<close>

text \<open>
  C3. The dispatch is decided by the preprocessor, from the toolchain's macros alone, and it
  is three-way in this order. (1) With \<^verbatim>\<open>_MSC_VER\<close> defined, whatever else is, the call
  runs the intrinsic on (leaf, subleaf) and stores the four elements of its array. (2)
  Otherwise, with \<^verbatim>\<open>__GNUC__\<close> or \<^verbatim>\<open>__clang__\<close> defined, the call executes the
  instruction with \<open>leaf\<close> in EAX and \<open>subleaf\<close> in ECX and stores the four registers,
  which are what the processor reports for (leaf, subleaf). (3) Otherwise the call stores four
  zeros. On each branch these four stores are all the call does to the memory. The three
  conditions are the only cases, each selects its mechanism and no other, and the compiled
  function is the body selected, as a function of all its run-time inputs: no run-time value
  takes part in the choice.
\<close>

theorem dispatch_three_way:
  assumes "valid_ptr s eax" and "valid_ptr s ebx" and "valid_ptr s ecx" and "valid_ptr s edx"
  shows "(preprocess tc = Intrinsic \<longleftrightarrow> def_MSC_VER tc)
   \<and> (preprocess tc = Inline_Asm \<longleftrightarrow> \<not> def_MSC_VER tc \<and> (def_GNUC tc \<or> def_clang tc))
   \<and> (preprocess tc = Zero_Fallback \<longleftrightarrow>
          \<not> def_MSC_VER tc \<and> \<not> def_GNUC tc \<and> \<not> def_clang tc)
   \<and> cpuid_raw tc = compiled_body (preprocess tc)
   \<and> (def_MSC_VER tc \<longrightarrow>
        (\<exists>s' regs. cpuid_raw tc hw r0 leaf subleaf eax ebx ecx edx s = Inr s'
           \<and> regs = cpuidex hw r0 (int_of_u32 leaf) (int_of_u32 subleaf)
           \<and> new_stores s s' =
                [(eax, u32_of_int (regs ! 0)), (ebx, u32_of_int (regs ! 1)),
                 (ecx, u32_of_int (regs ! 2)), (edx, u32_of_int (regs ! 3))]
           \<and> heap s' = write_all (new_stores s s') (heap s)))
   \<and> (\<not> def_MSC_VER tc \<and> (def_GNUC tc \<or> def_clang tc) \<longrightarrow>
        (\<exists>s' r. cpuid_raw tc hw r0 leaf subleaf eax ebx ecx edx s = Inr s'
           \<and> r = cpuid_insn hw (r0(EAX := leaf, ECX := subleaf))
           \<and> (r EAX, r EBX, r ECX, r EDX) = hw leaf subleaf
           \<and> new_stores s s' = [(eax, r EAX), (ebx, r EBX), (ecx, r ECX), (edx, r EDX)]
           \<and> heap s' = write_all (new_stores s s') (heap s)))
   \<and> (\<not> def_MSC_VER tc \<and> \<not> def_GNUC tc \<and> \<not> def_clang tc \<longrightarrow>
        (\<exists>s'. cpuid_raw tc hw r0 leaf subleaf eax ebx ecx edx s = Inr s'
           \<and> new_stores s s' = [(edx, 0), (ecx, 0), (ebx, 0), (eax, 0)]
           \<and> heap s' = write_all (new_stores s s') (heap s)
           \<and> outputs eax ebx ecx edx s' = [Some 0, Some 0, Some 0, Some 0]))"
proof -
  have chain: "(preprocess tc = Intrinsic \<longleftrightarrow> def_MSC_VER tc)"
    "(preprocess tc = Inline_Asm \<longleftrightarrow> \<not> def_MSC_VER tc \<and> (def_GNUC tc \<or> def_clang tc))"
    "(preprocess tc = Zero_Fallback \<longleftrightarrow>
        \<not> def_MSC_VER tc \<and> \<not> def_GNUC tc \<and> \<not> def_clang tc)"
    by (simp_all add: preprocess_def)
  have body: "cpuid_raw tc = compiled_body (preprocess tc)"
    by (intro ext) (simp add: cpuid_raw_def)
  have first: "\<exists>s' regs. cpuid_raw tc hw r0 leaf subleaf eax ebx ecx edx s = Inr s'
           \<and> regs = cpuidex hw r0 (int_of_u32 leaf) (int_of_u32 subleaf)
           \<and> new_stores s s' =
                [(eax, u32_of_int (regs ! 0)), (ebx, u32_of_int (regs ! 1)),
                 (ecx, u32_of_int (regs ! 2)), (edx, u32_of_int (regs ! 3))]
           \<and> heap s' = write_all (new_stores s s') (heap s)"
    if "def_MSC_VER tc"
    using that assms
    by (simp add: cpuid_raw_def preprocess_msc cpuid_raw_intrinsic_valid Let_def
        del: write_all.simps)
  have second: "\<exists>s' r. cpuid_raw tc hw r0 leaf subleaf eax ebx ecx edx s = Inr s'
           \<and> r = cpuid_insn hw (r0(EAX := leaf, ECX := subleaf))
           \<and> (r EAX, r EBX, r ECX, r EDX) = hw leaf subleaf
           \<and> new_stores s s' = [(eax, r EAX), (ebx, r EBX), (ecx, r ECX), (edx, r EDX)]
           \<and> heap s' = write_all (new_stores s s') (heap s)"
    if "\<not> def_MSC_VER tc \<and> (def_GNUC tc \<or> def_clang tc)"
  proof -
    from that have "preprocess tc = Inline_Asm" by (simp add: preprocess_def)
    with assms show ?thesis
      by (simp add: cpuid_raw_def cpuid_raw_asm_valid Let_def cpuid_insn_regs
          del: write_all.simps)
  qed
  have third: "\<exists>s'. cpuid_raw tc hw r0 leaf subleaf eax ebx ecx edx s = Inr s'
           \<and> new_stores s s' = [(edx, 0), (ecx, 0), (ebx, 0), (eax, 0)]
           \<and> heap s' = write_all (new_stores s s') (heap s)
           \<and> outputs eax ebx ecx edx s' = [Some 0, Some 0, Some 0, Some 0]"
    if "\<not> def_MSC_VER tc \<and> \<not> def_GNUC tc \<and> \<not> def_clang tc"
  proof -
    from that have "preprocess tc = Zero_Fallback" by (simp add: preprocess_def)
    with assms show ?thesis
      by (simp add: cpuid_raw_def cpuid_raw_zero_valid Let_def outputs_def)
  qed
  from first second third show ?thesis
    by (intro conjI impI chain body)
qed

theorem dispatch_three_way_witness:
  "valid_ptr sample_state 100 \<and> valid_ptr sample_state 101
   \<and> valid_ptr sample_state 102 \<and> valid_ptr sample_state 103
   \<and> def_MSC_VER clang_cl \<and> def_clang clang_cl \<and> preprocess clang_cl = Intrinsic
   \<and> (\<exists>s'. cpuid_raw clang_cl sample_cpu sample_regs 5 7 100 101 102 103 sample_state = Inr s'
          \<and> new_stores sample_state s' =
               [(100, 0x80000005), (101, 0xFFFFFFFF), (102, 7), (103, 0x80000001)])
   \<and> \<not> def_MSC_VER gcc \<and> def_GNUC gcc \<and> preprocess gcc = Inline_Asm
   \<and> (\<exists>s'. cpuid_raw gcc sample_cpu sample_regs 0 0 100 101 102 103 sample_state = Inr s'
          \<and> new_stores sample_state s' =
               [(100, 0x16), (101, 0x756E6547), (102, 0x6C65746E), (103, 0x49656E69)])
   \<and> \<not> def_MSC_VER other_cc \<and> \<not> def_GNUC other_cc \<and> \<not> def_clang other_cc
   \<and> preprocess other_cc = Zero_Fallback
   \<and> (\<exists>s'. cpuid_raw other_cc sample_cpu sample_regs 0 0 100 101 102 103 sample_state = Inr s'
          \<and> new_stores sample_state s' = [(103, 0), (102, 0), (101, 0), (100, 0)]
          \<and> outputs 100 101 102 103 s' = [Some 0, Some 0, Some 0, Some 0])"
proof -
  note v = sample_state_valid
  have m: "def_MSC_VER clang_cl" "def_clang clang_cl" by (simp_all add: clang_cl_def)
  have g: "\<not> def_MSC_VER gcc" "def_GNUC gcc" by (simp_all add: gcc_def)
  have o: "\<not> def_MSC_VER other_cc" "\<not> def_GNUC other_cc" "\<not> def_clang other_cc"
    by (simp_all add: other_cc_def)
  note d1 = dispatch_three_way [OF v, of clang_cl sample_cpu sample_regs 5 7]
  note d2 = dispatch_three_way [OF v, of gcc sample_cpu sample_regs 0 0]
  note d3 = dispatch_three_way [OF v, of other_cc sample_cpu sample_regs 0 0]
  from d1 m have p1: "preprocess clang_cl = Intrinsic" by simp
  from d2 g have p2: "preprocess gcc = Inline_Asm" by simp
  from d3 o have p3: "preprocess other_cc = Zero_Fallback" by simp
  from d1 m obtain s1 where run1:
    "cpuid_raw clang_cl sample_cpu sample_regs 5 7 100 101 102 103 sample_state = Inr s1"
    and log1: "new_stores sample_state s1 =
      [(100, u32_of_int (cpuidex sample_cpu sample_regs (int_of_u32 5) (int_of_u32 7) ! 0)),
       (101, u32_of_int (cpuidex sample_cpu sample_regs (int_of_u32 5) (int_of_u32 7) ! 1)),
       (102, u32_of_int (cpuidex sample_cpu sample_regs (int_of_u32 5) (int_of_u32 7) ! 2)),
       (103, u32_of_int (cpuidex sample_cpu sample_regs (int_of_u32 5) (int_of_u32 7) ! 3))]"
    by auto
  from log1 have log1': "new_stores sample_state s1 =
      [(100, 0x80000005), (101, 0xFFFFFFFF), (102, 7), (103, 0x80000001)]"
    by (simp add: sample_regs_filled u32_of_int_def)
  from d2 g obtain s2 where run2:
    "cpuid_raw gcc sample_cpu sample_regs 0 0 100 101 102 103 sample_state = Inr s2"
    and log2: "new_stores sample_state s2 =
      [(100, cpuid_insn sample_cpu (sample_regs(EAX := 0, ECX := 0)) EAX),
       (101, cpuid_insn sample_cpu (sample_regs(EAX := 0, ECX := 0)) EBX),
       (102, cpuid_insn sample_cpu (sample_regs(EAX := 0, ECX := 0)) ECX),
       (103, cpuid_insn sample_cpu (sample_regs(EAX := 0, ECX := 0)) EDX)]"
    by auto
  from log2 have log2': "new_stores sample_state s2 =
      [(100, 0x16), (101, 0x756E6547), (102, 0x6C65746E), (103, 0x49656E69)]"
    by (simp add: cpuid_insn_regs sample_cpu_def)
  from d3 o obtain s3 where run3:
    "cpuid_raw other_cc sample_cpu sample_regs 0 0 100 101 102 103 sample_state = Inr s3"
    and log3: "new_stores sample_state s3 = [(103, 0), (102, 0), (101, 0), (100, 0)]"
    and out3: "outputs 100 101 102 103 s3 = [Some 0, Some 0, Some 0, Some 0]"
    by auto
  have e1: "\<exists>s'. cpuid_raw clang_cl sample_cpu sample_regs 5 7 100 101 102 103 sample_state
          = Inr s'
        \<and> new_stores sample_state s' =
             [(100, 0x80000005), (101, 0xFFFFFFFF), (102, 7), (103, 0x80000001)]"
    by (rule exI [of _ s1], intro conjI run1 log1')
  have e2: "\<exists>s'. cpuid_raw gcc sample_cpu sample_regs 0 0 100 101 102 103 sample_state = Inr s'
        \<and> new_stores sample_state s' =
             [(100, 0x16), (101, 0x756E6547), (102, 0x6C65746E), (103, 0x49656E69)]"
    by (rule exI [of _ s2], intro conjI run2 log2')
  have e3: "\<exists>s'. cpuid_raw other_cc sample_cpu sample_regs 0 0 100 101 102 103 sample_state
          = Inr s'
        \<and> new_stores sample_state s' = [(103, 0), (102, 0), (101, 0), (100, 0)]
        \<and> outputs 100 101 102 103 s' = [Some 0, Some 0, Some 0, Some 0]"
    by (rule exI [of _ s3], intro conjI run3 log3 out3)
  from v m g o p1 p2 p3 e1 e2 e3 show ?thesis by (intro conjI)
qed

section \<open>The signed detour of the intrinsic branch\<close>

text \<open>
  C10. On the intrinsic branch the results pass through \<^verbatim>\<open>int\<close> storage: the four array
  elements are values of the signed 32-bit range, each output is its array element reduced
  modulo \<open>2^32\<close>, and the selectors reach the intrinsic as \<^verbatim>\<open>int\<close> values of that range
  congruent to \<open>leaf\<close> and \<open>subleaf\<close> modulo \<open>2^32\<close>. No bit is lost either way: the
  four outputs are exactly the four words the processor reports for (leaf, subleaf).
\<close>

theorem intrinsic_signed_round_trip:
  assumes "def_MSC_VER tc"
    and "valid_ptr s eax" and "valid_ptr s ebx" and "valid_ptr s ecx" and "valid_ptr s edx"
    and "distinct [eax, ebx, ecx, edx]"
    and "regs = cpuidex hw r0 (int_of_u32 leaf) (int_of_u32 subleaf)"
  shows "\<exists>s' a b c d. cpuid_raw tc hw r0 leaf subleaf eax ebx ecx edx s = Inr s'
            \<and> outputs eax ebx ecx edx s' = [Some a, Some b, Some c, Some d]
            \<and> (\<forall>x \<in> set regs. - (2 ^ 31) \<le> x \<and> x < 2 ^ 31)
            \<and> uint a = regs ! 0 mod 2 ^ 32 \<and> uint b = regs ! 1 mod 2 ^ 32
            \<and> uint c = regs ! 2 mod 2 ^ 32 \<and> uint d = regs ! 3 mod 2 ^ 32
            \<and> - (2 ^ 31) \<le> int_of_u32 leaf \<and> int_of_u32 leaf < 2 ^ 31
            \<and> int_of_u32 leaf mod 2 ^ 32 = uint leaf
            \<and> - (2 ^ 31) \<le> int_of_u32 subleaf \<and> int_of_u32 subleaf < 2 ^ 31
            \<and> int_of_u32 subleaf mod 2 ^ 32 = uint subleaf
            \<and> (a, b, c, d) = hw leaf subleaf"
proof -
  let ?a = "u32_of_int (regs ! 0)" and ?b = "u32_of_int (regs ! 1)"
  and ?c = "u32_of_int (regs ! 2)" and ?d = "u32_of_int (regs ! 3)"
  let ?ws = "[(eax, ?a), (ebx, ?b), (ecx, ?c), (edx, ?d)]"
  let ?s' = "s\<lparr>heap := write_all ?ws (heap s), wlog := wlog s @ ?ws\<rparr>"
  have run: "cpuid_raw tc hw r0 leaf subleaf eax ebx ecx edx s = Inr ?s'"
    using assms(1-5)
    by (simp add: cpuid_raw_def preprocess_msc cpuid_raw_intrinsic_valid Let_def assms(7)
        del: write_all.simps)
  have out: "outputs eax ebx ecx edx ?s' = [Some ?a, Some ?b, Some ?c, Some ?d]"
    using write_all4_distinct [OF assms(6)] by (simp only: outputs_after)
  have range: "\<forall>x \<in> set regs. - (2 ^ 31) \<le> x \<and> x < 2 ^ 31"
    unfolding assms(7) by (rule cpuidex_range)
  have len: "length regs = 4"
    by (simp add: assms(7) cpuidex_def Let_def)
  have "map u32_of_int regs = (case hw leaf subleaf of (a, b, c, d) \<Rightarrow> [a, b, c, d])"
    unfolding assms(7) by (rule cpuidex_round_trip)
  moreover from len have "map u32_of_int regs = [?a, ?b, ?c, ?d]"
    by (simp add: assms(7) cpuidex_def Let_def)
  ultimately have same: "(?a, ?b, ?c, ?d) = hw leaf subleaf"
    by (simp split: prod.splits)
  show ?thesis
    by (rule exI [of _ ?s'], rule exI [of _ ?a], rule exI [of _ ?b], rule exI [of _ ?c],
        rule exI [of _ ?d])
      (intro conjI run out range same uint_u32_of_int
        int_of_u32_range [THEN conjunct1] int_of_u32_range [THEN conjunct2] int_of_u32_mod)
qed


theorem intrinsic_signed_round_trip_witness:
  "def_MSC_VER msvc \<and> valid_ptr sample_state 100 \<and> valid_ptr sample_state 101
   \<and> valid_ptr sample_state 102 \<and> valid_ptr sample_state 103
   \<and> distinct [100, 101, 102, 103 :: addr]
   \<and> cpuidex sample_cpu sample_regs (int_of_u32 5) (int_of_u32 7) =
        [- 2147483643, - 1, 7, - 2147483647]
   \<and> (\<exists>s'. cpuid_raw msvc sample_cpu sample_regs 5 7 100 101 102 103 sample_state = Inr s'
            \<and> outputs 100 101 102 103 s' =
                 [Some 0x80000005, Some 0xFFFFFFFF, Some 7, Some 0x80000001])
   \<and> sample_cpu 5 7 = (0x80000005, 0xFFFFFFFF, 7, 0x80000001)
   \<and> uint (0x80000005 :: u32) = (- 2147483643) mod 2 ^ 32
   \<and> uint (0xFFFFFFFF :: u32) = (- 1) mod 2 ^ 32"
proof -
  have m: "def_MSC_VER msvc" by (simp add: msvc_def)
  note v = sample_state_valid
  have d: "distinct [100, 101, 102, 103 :: addr]" by simp
  note r = sample_regs_filled
  have hw: "sample_cpu 5 7 = (0x80000005, 0xFFFFFFFF, 7, 0x80000001)"
    by (simp add: sample_cpu_def)
  from intrinsic_signed_round_trip [OF m v d r [symmetric]]
  obtain s' a b c e where run:
    "cpuid_raw msvc sample_cpu sample_regs 5 7 100 101 102 103 sample_state = Inr s'"
    and out: "outputs 100 101 102 103 s' = [Some a, Some b, Some c, Some e]"
    and ua: "uint a = [- 2147483643, - 1, 7, - 2147483647] ! 0 mod 2 ^ 32"
    and ub: "uint b = [- 2147483643, - 1, 7, - 2147483647] ! 1 mod 2 ^ 32"
    and same: "(a, b, c, e) = sample_cpu 5 7"
    by (elim exE conjE)
  from same hw have vals: "a = 0x80000005" "b = 0xFFFFFFFF" "c = 7" "e = 0x80000001"
    by simp_all
  from out vals have out': "outputs 100 101 102 103 s' =
      [Some 0x80000005, Some 0xFFFFFFFF, Some 7, Some 0x80000001]"
    by simp
  from ua vals have ua': "uint (0x80000005 :: u32) = (- 2147483643) mod 2 ^ 32"
    by simp
  from ub vals have ub': "uint (0xFFFFFFFF :: u32) = (- 1) mod 2 ^ 32"
    by simp
  have "\<exists>s'. cpuid_raw msvc sample_cpu sample_regs 5 7 100 101 102 103 sample_state = Inr s'
            \<and> outputs 100 101 102 103 s' =
                 [Some 0x80000005, Some 0xFFFFFFFF, Some 7, Some 0x80000001]"
    by (rule exI [of _ s'], intro conjI run out')
  with m v d r hw ua' ub' show ?thesis by (intro conjI)
qed

section \<open>Two runs\<close>

text \<open>
  C6. Two calls on the same processor context (the same toolchain and the same processor
  table) with the same pair (leaf, subleaf), in particular (0, 0), store the same four values,
  whatever the registers and the memory held before each call and wherever the outputs are.
  The callers read back identical outputs when each call's four pointers are pairwise
  different, and also when both calls use the same four pointers.
\<close>

theorem cpuid_raw_deterministic:
  assumes "valid_ptr s1 eax1" and "valid_ptr s1 ebx1" and "valid_ptr s1 ecx1"
    and "valid_ptr s1 edx1"
    and "valid_ptr s2 eax2" and "valid_ptr s2 ebx2" and "valid_ptr s2 ecx2"
    and "valid_ptr s2 edx2"
  shows "\<exists>s1' s2'.
           cpuid_raw tc hw r1 leaf subleaf eax1 ebx1 ecx1 edx1 s1 = Inr s1'
         \<and> cpuid_raw tc hw r2 leaf subleaf eax2 ebx2 ecx2 edx2 s2 = Inr s2'
         \<and> map snd (new_stores s1 s1') = map snd (new_stores s2 s2')
         \<and> (distinct [eax1, ebx1, ecx1, edx1] \<and> distinct [eax2, ebx2, ecx2, edx2] \<longrightarrow>
              outputs eax1 ebx1 ecx1 edx1 s1' = outputs eax2 ebx2 ecx2 edx2 s2')
         \<and> (eax1 = eax2 \<and> ebx1 = ebx2 \<and> ecx1 = ecx2 \<and> edx1 = edx2 \<longrightarrow>
              outputs eax1 ebx1 ecx1 edx1 s1' = outputs eax2 ebx2 ecx2 edx2 s2')"
proof -
  from cpuid_raw_values [of tc hw leaf subleaf] obtain a b c d where
    every: "\<forall>r0 eax ebx ecx edx s.
      valid_ptr s eax \<longrightarrow> valid_ptr s ebx \<longrightarrow> valid_ptr s ecx \<longrightarrow> valid_ptr s edx \<longrightarrow>
      (\<exists>s'. cpuid_raw tc hw r0 leaf subleaf eax ebx ecx edx s = Inr s'
           \<and> heap s' = write_all [(eax, a), (ebx, b), (ecx, c), (edx, d)] (heap s)
           \<and> map snd (new_stores s s') = [a, b, c, d])"
    by (elim exE)
  note vals = every [rule_format]
  let ?ws1 = "[(eax1, a), (ebx1, b), (ecx1, c), (edx1, d)]"
  let ?ws2 = "[(eax2, a), (ebx2, b), (ecx2, c), (edx2, d)]"
  from vals [OF assms(1-4), of r1] obtain s1' where
    run1: "cpuid_raw tc hw r1 leaf subleaf eax1 ebx1 ecx1 edx1 s1 = Inr s1'"
    and heap1: "heap s1' = write_all ?ws1 (heap s1)"
    and log1: "map snd (new_stores s1 s1') = [a, b, c, d]"
    by (elim exE conjE)
  from vals [OF assms(5-8), of r2] obtain s2' where
    run2: "cpuid_raw tc hw r2 leaf subleaf eax2 ebx2 ecx2 edx2 s2 = Inr s2'"
    and heap2: "heap s2' = write_all ?ws2 (heap s2)"
    and log2: "map snd (new_stores s2 s2') = [a, b, c, d]"
    by (elim exE conjE)
  have out1: "outputs eax1 ebx1 ecx1 edx1 s1' = map (write_all ?ws1 (heap s1)) [eax1, ebx1, ecx1, edx1]"
    by (simp add: outputs_def heap1 del: write_all.simps)
  have out2: "outputs eax2 ebx2 ecx2 edx2 s2' = map (write_all ?ws2 (heap s2)) [eax2, ebx2, ecx2, edx2]"
    by (simp add: outputs_def heap2 del: write_all.simps)
  have apart: "outputs eax1 ebx1 ecx1 edx1 s1' = outputs eax2 ebx2 ecx2 edx2 s2'"
    if "distinct [eax1, ebx1, ecx1, edx1]" "distinct [eax2, ebx2, ecx2, edx2]"
    unfolding out1 out2
    by (simp only: write_all4_distinct [OF that(1)] write_all4_distinct [OF that(2)])
  have shared: "outputs eax1 ebx1 ecx1 edx1 s1' = outputs eax2 ebx2 ecx2 edx2 s2'"
    if "eax1 = eax2" "ebx1 = ebx2" "ecx1 = ecx2" "edx1 = edx2"
  proof -
    have "write_all ?ws2 (heap s1) p = write_all ?ws2 (heap s2) p"
      if "p \<in> {eax2, ebx2, ecx2, edx2}" for p
      by (rule write_all_cong) (use that in simp)
    then show ?thesis
      unfolding out1 out2 by (simp add: that del: write_all.simps)
  qed
  from log1 log2 have logs: "map snd (new_stores s1 s1') = map snd (new_stores s2 s2')"
    by simp
  from apart have apart': "distinct [eax1, ebx1, ecx1, edx1] \<and> distinct [eax2, ebx2, ecx2, edx2]
      \<longrightarrow> outputs eax1 ebx1 ecx1 edx1 s1' = outputs eax2 ebx2 ecx2 edx2 s2'"
    by (intro impI) (elim conjE)
  from shared have shared': "eax1 = eax2 \<and> ebx1 = ebx2 \<and> ecx1 = ecx2 \<and> edx1 = edx2
      \<longrightarrow> outputs eax1 ebx1 ecx1 edx1 s1' = outputs eax2 ebx2 ecx2 edx2 s2'"
    by (intro impI) (elim conjE)
  show ?thesis
    by (rule exI [of _ s1'], rule exI [of _ s2'], intro conjI run1 run2 logs apart' shared')
qed

theorem cpuid_raw_deterministic_witness:
  "valid_ptr sample_state 100 \<and> valid_ptr sample_state 101
   \<and> valid_ptr sample_state 102 \<and> valid_ptr sample_state 103
   \<and> valid_ptr other_state 303 \<and> valid_ptr other_state 302
   \<and> valid_ptr other_state 301 \<and> valid_ptr other_state 300
   \<and> distinct [100, 101, 102, 103 :: addr] \<and> distinct [303, 302, 301, 300 :: addr]
   \<and> (\<exists>s1' s2'.
         cpuid_raw gcc sample_cpu sample_regs 0 0 100 101 102 103 sample_state = Inr s1'
       \<and> cpuid_raw gcc sample_cpu other_regs 0 0 303 302 301 300 other_state = Inr s2'
       \<and> map snd (new_stores sample_state s1') = map snd (new_stores other_state s2')
       \<and> outputs 100 101 102 103 s1' = outputs 303 302 301 300 s2')"
proof -
  note v = sample_state_valid
  have w: "valid_ptr other_state 303" "valid_ptr other_state 302"
    "valid_ptr other_state 301" "valid_ptr other_state 300"
    by (simp_all add: valid_ptr_def other_state_def)
  have d: "distinct [100, 101, 102, 103 :: addr]" "distinct [303, 302, 301, 300 :: addr]"
    by simp_all
  from cpuid_raw_deterministic [OF v w, of gcc sample_cpu sample_regs 0 0 other_regs]
  obtain s1' s2' where
    run1: "cpuid_raw gcc sample_cpu sample_regs 0 0 100 101 102 103 sample_state = Inr s1'"
    and run2: "cpuid_raw gcc sample_cpu other_regs 0 0 303 302 301 300 other_state = Inr s2'"
    and logs: "map snd (new_stores sample_state s1') = map snd (new_stores other_state s2')"
    and apart: "distinct [100, 101, 102, 103 :: addr] \<and> distinct [303, 302, 301, 300 :: addr]
        \<longrightarrow> outputs 100 101 102 103 s1' = outputs 303 302 301 300 s2'"
    by (elim exE conjE)
  from apart d have out: "outputs 100 101 102 103 s1' = outputs 303 302 301 300 s2'"
    by (elim impE) (intro conjI)
  have "\<exists>s1' s2'.
         cpuid_raw gcc sample_cpu sample_regs 0 0 100 101 102 103 sample_state = Inr s1'
       \<and> cpuid_raw gcc sample_cpu other_regs 0 0 303 302 301 300 other_state = Inr s2'
       \<and> map snd (new_stores sample_state s1') = map snd (new_stores other_state s2')
       \<and> outputs 100 101 102 103 s1' = outputs 303 302 301 300 s2'"
    by (rule exI [of _ s1'], rule exI [of _ s2'], intro conjI run1 run2 logs out)
  with v w d show ?thesis by (intro conjI)
qed

section \<open>One call after another\<close>

text \<open>
  Two calls in sequence, with any selectors, whose output locations are apart: the second
  call leaves the first call's outputs as the first call left them, and its own outputs are
  those it produces when run alone from the initial memory.
\<close>

lemma calls_do_not_interfere:
  assumes v1: "valid_ptr s eax1" "valid_ptr s ebx1" "valid_ptr s ecx1" "valid_ptr s edx1"
    and v2: "valid_ptr s eax2" "valid_ptr s ebx2" "valid_ptr s ecx2" "valid_ptr s edx2"
    and apart: "{eax1, ebx1, ecx1, edx1} \<inter> {eax2, ebx2, ecx2, edx2} = {}"
  shows "\<exists>s1 s12 s2.
           cpuid_raw tc hw r1 leaf1 subleaf1 eax1 ebx1 ecx1 edx1 s = Inr s1
         \<and> cpuid_raw tc hw r2 leaf2 subleaf2 eax2 ebx2 ecx2 edx2 s1 = Inr s12
         \<and> cpuid_raw tc hw r2 leaf2 subleaf2 eax2 ebx2 ecx2 edx2 s = Inr s2
         \<and> outputs eax1 ebx1 ecx1 edx1 s12 = outputs eax1 ebx1 ecx1 edx1 s1
         \<and> outputs eax2 ebx2 ecx2 edx2 s12 = outputs eax2 ebx2 ecx2 edx2 s2"
proof -
  from cpuid_raw_four_stores [OF v1, of tc hw r1 leaf1 subleaf1] obtain ws1 where
    run1: "cpuid_raw tc hw r1 leaf1 subleaf1 eax1 ebx1 ecx1 edx1 s =
             Inr (s\<lparr>heap := write_all ws1 (heap s), wlog := wlog s @ ws1\<rparr>)"
    and ptrs1: "fst ` set ws1 = {eax1, ebx1, ecx1, edx1}"
    by (elim exE conjE)
  let ?s1 = "s\<lparr>heap := write_all ws1 (heap s), wlog := wlog s @ ws1\<rparr>"
  have keep: "heap ?s1 p = heap s p" if "p \<in> {eax2, ebx2, ecx2, edx2}" for p
  proof -
    from that apart ptrs1 have "p \<notin> fst ` set ws1" by auto
    then show ?thesis by (simp add: write_all_other)
  qed
  have v2': "valid_ptr ?s1 eax2" "valid_ptr ?s1 ebx2" "valid_ptr ?s1 ecx2" "valid_ptr ?s1 edx2"
    using v2 keep by (simp_all add: valid_ptr_def del: cstate.simps)
  from cpuid_raw_values [of tc hw leaf2 subleaf2] obtain a b c d where
    every: "\<forall>r0 eax ebx ecx edx s.
      valid_ptr s eax \<longrightarrow> valid_ptr s ebx \<longrightarrow> valid_ptr s ecx \<longrightarrow> valid_ptr s edx \<longrightarrow>
      (\<exists>s'. cpuid_raw tc hw r0 leaf2 subleaf2 eax ebx ecx edx s = Inr s'
           \<and> heap s' = write_all [(eax, a), (ebx, b), (ecx, c), (edx, d)] (heap s)
           \<and> map snd (new_stores s s') = [a, b, c, d])"
    by (elim exE)
  note vals = every [rule_format]
  let ?ws2 = "[(eax2, a), (ebx2, b), (ecx2, c), (edx2, d)]"
  from vals [OF v2', of r2] obtain s12 where
    run12: "cpuid_raw tc hw r2 leaf2 subleaf2 eax2 ebx2 ecx2 edx2 ?s1 = Inr s12"
    and heap12: "heap s12 = write_all ?ws2 (heap ?s1)"
    by (elim exE conjE)
  from vals [OF v2, of r2] obtain s2 where
    run2: "cpuid_raw tc hw r2 leaf2 subleaf2 eax2 ebx2 ecx2 edx2 s = Inr s2"
    and heap2: "heap s2 = write_all ?ws2 (heap s)"
    by (elim exE conjE)
  have first: "heap s12 p = heap ?s1 p" if "p \<in> {eax1, ebx1, ecx1, edx1}" for p
  proof -
    from that apart have "p \<notin> fst ` set ?ws2" by auto
    then show ?thesis unfolding heap12 by (rule write_all_other)
  qed
  have second: "heap s12 p = heap s2 p" if "p \<in> {eax2, ebx2, ecx2, edx2}" for p
    unfolding heap12 heap2 by (rule write_all_cong) (use that in simp)
  have out1: "outputs eax1 ebx1 ecx1 edx1 s12 = outputs eax1 ebx1 ecx1 edx1 ?s1"
    unfolding outputs_def using first by simp
  have out2: "outputs eax2 ebx2 ecx2 edx2 s12 = outputs eax2 ebx2 ecx2 edx2 s2"
    unfolding outputs_def using second by simp
  show ?thesis
    by (rule exI [of _ ?s1], rule exI [of _ s12], rule exI [of _ s2],
        intro conjI run1 run12 run2 out1 out2)
qed

section \<open>Calls running at the same time\<close>

text \<open>A call is the execution of its sequence of stores, on every branch and every memory.\<close>

lemma cpuid_raw_as_stores:
  "cpuid_raw tc hw r0 leaf subleaf eax ebx ecx edx s =
     stores (cpuid_raw_stores tc hw r0 leaf subleaf eax ebx ecx edx) s"
  by (cases "preprocess tc")
    (simp_all add: cpuid_raw_def cpuid_raw_stores_def cpuid_raw_intrinsic_def cpuid_raw_asm_def
      cpuid_raw_zero_def Let_def)

lemma run_call_as_stores: "run_call tc c s = stores (call_stores tc c) s"
  by (simp add: run_call_def call_stores_def cpuid_raw_as_stores)

lemma call_stores_ptrs: "fst ` set (call_stores tc c) = call_ptrs c"
  by (cases "preprocess tc")
    (auto simp: call_stores_def cpuid_raw_stores_def call_ptrs_def Let_def)

text \<open>What a location holds after a sequence of stores is decided by the stores to it.\<close>

lemma write_all_filter:
  "write_all ws h p = write_all (filter (\<lambda>w. fst w = p) ws) h p"
proof (induction ws arbitrary: h)
  case Nil
  show ?case by simp
next
  case (Cons w ws)
  obtain q u where w: "w = (q, u)" by (cases w)
  have step: "write_all (w # ws) h p = write_all ws (h(q \<mapsto> u)) p"
    by (simp only: w write_all.simps)
  have ih: "write_all ws (h(q \<mapsto> u)) p =
      write_all (filter (\<lambda>w. fst w = p) ws) (h(q \<mapsto> u)) p"
    by (rule Cons.IH)
  show ?case
  proof (cases "q = p")
    case True
    then have "filter (\<lambda>w. fst w = p) (w # ws) = w # filter (\<lambda>w. fst w = p) ws"
      by (simp add: w)
    then have "write_all (filter (\<lambda>w. fst w = p) (w # ws)) h p =
        write_all (filter (\<lambda>w. fst w = p) ws) (h(q \<mapsto> u)) p"
      by (simp only: w write_all.simps)
    with step ih show ?thesis by (simp only:)
  next
    case False
    then have "filter (\<lambda>w. fst w = p) (w # ws) = filter (\<lambda>w. fst w = p) ws"
      by (simp add: w)
    moreover have "write_all (filter (\<lambda>w. fst w = p) ws) (h(q \<mapsto> u)) p =
          write_all (filter (\<lambda>w. fst w = p) ws) h p"
      by (rule write_all_cong) (use False in simp)
    ultimately show ?thesis using step ih by (simp only:)
  qed
qed

text \<open>
  In an interleaving of two sequences, a location the second sequence never stores to ends
  as the first sequence alone leaves it; and the other way round.
\<close>

lemma write_all_shuffles_left:
  assumes "zs \<in> shuffles xs ys" and "p \<notin> fst ` set ys"
  shows "write_all zs h p = write_all xs h p"
proof -
  let ?P = "\<lambda>w :: addr \<times> u32. fst w = p"
  from assms(2) have none: "filter ?P ys = []"
    by (auto simp: filter_empty_conv)
  from assms(1) have "filter ?P zs \<in> filter ?P ` shuffles xs ys" by (rule imageI)
  then have "filter ?P zs \<in> shuffles (filter ?P xs) (filter ?P ys)"
    by (simp only: filter_shuffles)
  with none have "filter ?P zs = filter ?P xs" by simp
  then show ?thesis
    using write_all_filter [of zs h p] write_all_filter [of xs h p] by simp
qed

lemma write_all_shuffles_right:
  assumes "zs \<in> shuffles xs ys" and "p \<notin> fst ` set xs"
  shows "write_all zs h p = write_all ys h p"
  using assms write_all_shuffles_left [of zs ys xs p h] by (simp add: shuffles_commutes)

text \<open>An interleaving holds the steps of its sequences and no others.\<close>

lemma set_interleavings:
  "zs \<in> interleavings xss \<Longrightarrow> set zs = set (concat xss)"
proof (induction xss arbitrary: zs)
  case Nil
  then show ?case by simp
next
  case (Cons xs xss)
  from Cons.prems obtain ys where ys: "ys \<in> interleavings xss" and zs: "zs \<in> shuffles xs ys"
    by auto
  from zs have "set zs = set xs \<union> set ys" by (rule set_shuffles)
  with Cons.IH [OF ys] show ?case by simp
qed

lemma interleaved_ptrs:
  "zs \<in> interleavings (map (call_stores tc) cs) \<Longrightarrow> fst ` set zs = \<Union> (call_ptrs ` set cs)"
proof -
  assume "zs \<in> interleavings (map (call_stores tc) cs)"
  then have "set zs = set (concat (map (call_stores tc) cs))" by (rule set_interleavings)
  then have "fst ` set zs = (\<Union>c \<in> set cs. fst ` set (call_stores tc c))" by auto
  then show ?thesis by (simp add: call_stores_ptrs)
qed

text \<open>
  In any interleaving of the stores of calls with output storage of their own, each call's
  output locations end as that call's stores alone leave them. By induction on the list of
  calls.
\<close>

lemma interleaved_value:
  "apart cs \<Longrightarrow> zs \<in> interleavings (map (call_stores tc) cs) \<Longrightarrow> c \<in> set cs \<Longrightarrow>
     p \<in> call_ptrs c \<Longrightarrow> write_all zs h p = write_all (call_stores tc c) h p"
proof (induction cs arbitrary: zs)
  case Nil
  then show ?case by simp
next
  case (Cons d cs)
  from Cons.prems(2) obtain ys where
    ys: "ys \<in> interleavings (map (call_stores tc) cs)"
    and zs: "zs \<in> shuffles (call_stores tc d) ys"
    by auto
  from Cons.prems(1) have alone: "\<forall>e \<in> set cs. call_ptrs d \<inter> call_ptrs e = {}"
    and rest: "apart cs"
    by simp_all
  show ?case
  proof (cases "c \<in> set cs")
    case True
    with alone Cons.prems(4) have "p \<notin> call_ptrs d" by auto
    then have "p \<notin> fst ` set (call_stores tc d)" by (simp add: call_stores_ptrs)
    with zs have "write_all zs h p = write_all ys h p" by (rule write_all_shuffles_right)
    also from rest ys True Cons.prems(4) have "\<dots> = write_all (call_stores tc c) h p"
      by (rule Cons.IH)
    finally show ?thesis .
  next
    case False
    with Cons.prems(3) have "c = d" by simp
    with alone Cons.prems(4) have "p \<notin> \<Union> (call_ptrs ` set cs)" by auto
    with ys have "p \<notin> fst ` set ys" by (simp add: interleaved_ptrs)
    with zs have "write_all zs h p = write_all (call_stores tc d) h p"
      by (rule write_all_shuffles_left)
    with \<open>c = d\<close> show ?thesis by simp
  qed
qed

text \<open>
  C9. Any number of threads call the function at the same time, without synchronization, each
  with its own selectors, on its own logical processor, with output storage of its own (no
  location shared by two calls). An execution is any interleaving of the calls' stores.
  Every one of them runs to its end without a fault, and leaves in each call's outputs what
  that call leaves there when it runs alone, single-threaded, from any memory: no call
  changes what another reports.
\<close>

theorem concurrent_calls_as_alone:
  assumes "\<forall>c \<in> set cs. \<forall>p \<in> call_ptrs c. valid_ptr s p"
    and "apart cs"
    and "sched \<in> interleavings (map (call_stores tc) cs)"
    and "c \<in> set cs"
    and "\<forall>p \<in> call_ptrs c. valid_ptr s0 p"
  shows "\<exists>s' s1. stores sched s = Inr s'
            \<and> run_call tc c s0 = Inr s1
            \<and> call_outputs c s' = call_outputs c s1
            \<and> length (new_stores s s') = 4 * length cs"
proof -
  from assms(3) have ptrs: "fst ` set sched = \<Union> (call_ptrs ` set cs)"
    by (rule interleaved_ptrs)
  with assms(1) have "\<forall>p \<in> fst ` set sched. valid_ptr s p" by auto
  then have all: "stores sched s =
      Inr (s\<lparr>heap := write_all sched (heap s), wlog := wlog s @ sched\<rparr>)"
    by (rule stores_valid)
  let ?s' = "s\<lparr>heap := write_all sched (heap s), wlog := wlog s @ sched\<rparr>"
  let ?ws = "call_stores tc c"
  from assms(5) have "\<forall>p \<in> fst ` set ?ws. valid_ptr s0 p"
    by (simp add: call_stores_ptrs)
  then have "stores ?ws s0 = Inr (s0\<lparr>heap := write_all ?ws (heap s0), wlog := wlog s0 @ ?ws\<rparr>)"
    by (rule stores_valid)
  then have alone: "run_call tc c s0 =
      Inr (s0\<lparr>heap := write_all ?ws (heap s0), wlog := wlog s0 @ ?ws\<rparr>)"
    by (simp add: run_call_as_stores)
  let ?s1 = "s0\<lparr>heap := write_all ?ws (heap s0), wlog := wlog s0 @ ?ws\<rparr>"
  have same: "heap ?s' p = heap ?s1 p" if "p \<in> call_ptrs c" for p
  proof -
    from assms(2,3,4) that have "write_all sched (heap s) p = write_all ?ws (heap s) p"
      by (rule interleaved_value)
    also have "\<dots> = write_all ?ws (heap s0) p"
      by (rule write_all_cong) (use that in \<open>simp add: call_stores_ptrs\<close>)
    finally show ?thesis by simp
  qed
  have out: "call_outputs c ?s' = call_outputs c ?s1"
    unfolding call_outputs_def outputs_def using same by (simp add: call_ptrs_def)
  have "length (call_stores tc d) = 4" for d
    by (cases "preprocess tc") (simp_all add: call_stores_def cpuid_raw_stores_def Let_def)
  then have "length (concat (map (call_stores tc) cs)) = 4 * length cs"
    by (induction cs) simp_all
  moreover have "length zs = length (concat xss)" if "zs \<in> interleavings xss"
    for zs :: "(addr \<times> u32) list" and xss
    using that
  proof (induction xss arbitrary: zs)
    case Nil
    then show ?case by simp
  next
    case (Cons xs xss)
    from Cons.prems obtain ys where "ys \<in> interleavings xss" "zs \<in> shuffles xs ys" by auto
    with Cons.IH [of ys] show ?case by (simp add: length_shuffles)
  qed
  ultimately have len: "length (new_stores s ?s') = 4 * length cs"
    using assms(3) by simp
  show ?thesis
    by (rule exI [of _ ?s'], rule exI [of _ ?s1], intro conjI all alone out len)
qed


text \<open>The stores of the two sample calls, and the sample execution as one of theirs.\<close>

lemma call_a_stores:
  "call_stores gcc call_a =
     [(100, 0x16), (101, 0x756E6547), (102, 0x6C65746E), (103, 0x49656E69)]"
  by (simp add: call_stores_def cpuid_raw_stores_def preprocess_def gcc_def call_a_def
      cpuid_insn_regs sample_cpu_def)

lemma call_b_stores:
  "call_stores gcc call_b = [(300, 6), (301, 9), (302, 0xF0F0F0F0), (303, 0)]"
  by (simp add: call_stores_def cpuid_raw_stores_def preprocess_def gcc_def call_b_def
      cpuid_insn_regs other_cpu_def)

lemma sched_ab_interleaves:
  "sched_ab \<in> interleavings (map (call_stores gcc) [call_a, call_b])"
  by (simp add: call_a_stores call_b_stores sched_ab_def Cons_in_shuffles_iff)

lemma call_b_alone:
  "\<exists>s1. run_call gcc call_b other_state = Inr s1
        \<and> call_outputs call_b s1 = [Some 6, Some 9, Some 0xF0F0F0F0, Some 0]"
  by (simp only: run_call_as_stores call_b_stores)
    (simp add: stores.simps store_u32_def other_state_def call_outputs_def outputs_def
      call_b_def)

theorem concurrent_calls_as_alone_witness:
  "apart [call_a, call_b]
   \<and> sched_ab \<in> interleavings (map (call_stores gcc) [call_a, call_b])
   \<and> call_b \<in> set [call_a, call_b]
   \<and> (\<exists>s' s1. stores sched_ab shared_state = Inr s'
         \<and> run_call gcc call_b other_state = Inr s1
         \<and> call_outputs call_b s' = call_outputs call_b s1
         \<and> call_outputs call_b s' = [Some 6, Some 9, Some 0xF0F0F0F0, Some 0]
         \<and> length (new_stores shared_state s') = 8)"
proof -
  have v: "\<forall>c \<in> set [call_a, call_b]. \<forall>p \<in> call_ptrs c. valid_ptr shared_state p"
    by (simp add: call_ptrs_def call_a_def call_b_def valid_ptr_def shared_state_def)
  have a: "apart [call_a, call_b]"
    by (simp add: call_ptrs_def call_a_def call_b_def)
  note i = sched_ab_interleaves
  have m: "call_b \<in> set [call_a, call_b]" by simp
  have v0: "\<forall>p \<in> call_ptrs call_b. valid_ptr other_state p"
    by (simp add: call_ptrs_def call_b_def valid_ptr_def other_state_def)
  from concurrent_calls_as_alone [OF v a i m v0] obtain s' s1 where
    run: "stores sched_ab shared_state = Inr s'"
    and alone: "run_call gcc call_b other_state = Inr s1"
    and same: "call_outputs call_b s' = call_outputs call_b s1"
    and len: "length (new_stores shared_state s') = 4 * length [call_a, call_b]"
    by (elim exE conjE)
  from call_b_alone alone have "call_outputs call_b s1 = [Some 6, Some 9, Some 0xF0F0F0F0, Some 0]"
    by (elim exE conjE) simp
  with same have vals: "call_outputs call_b s' = [Some 6, Some 9, Some 0xF0F0F0F0, Some 0]"
    by simp
  from len have len': "length (new_stores shared_state s') = 8" by simp
  have "\<exists>s' s1. stores sched_ab shared_state = Inr s'
         \<and> run_call gcc call_b other_state = Inr s1
         \<and> call_outputs call_b s' = call_outputs call_b s1
         \<and> call_outputs call_b s' = [Some 6, Some 9, Some 0xF0F0F0F0, Some 0]
         \<and> length (new_stores shared_state s') = 8"
    by (rule exI [of _ s'], rule exI [of _ s1], intro conjI run alone same vals len')
  with a i m show ?thesis by (intro conjI)
qed

section \<open>Outside the contract, and concrete runs\<close>

text \<open>
  The hypothesis that the four pointers are valid cannot be dropped: with an invalid pointer
  among them the call faults, on every branch.
\<close>

lemma cpuid_raw_invalid_pointer:
  assumes "\<not> valid_ptr s eax \<or> \<not> valid_ptr s ebx \<or> \<not> valid_ptr s ecx \<or> \<not> valid_ptr s edx"
  shows "cpuid_raw tc hw r0 leaf subleaf eax ebx ecx edx s = Inl Invalid_Pointer"
proof -
  have "stores ws s = Inl Invalid_Pointer" if "fst ` set ws = {eax, ebx, ecx, edx}" for ws
    by (rule stores_invalid) (use assms that in auto)
  then show ?thesis
    by (cases "preprocess tc")
      (simp_all add: cpuid_raw_def cpuid_raw_intrinsic_def cpuid_raw_asm_def cpuid_raw_zero_def
        Let_def insert_commute)
qed

text \<open>The model runs: three calls on the sample processor, one per branch.\<close>

lemma run_gcc_leaf0:
  "\<exists>s'. cpuid_raw gcc sample_cpu sample_regs 0 0 100 101 102 103 sample_state = Inr s'
        \<and> outputs 100 101 102 103 s' =
             [Some 0x16, Some 0x756E6547, Some 0x6C65746E, Some 0x49656E69]
        \<and> heap s' 200 = Some 0x12345678
        \<and> wlog s' = [(100, 0x16), (101, 0x756E6547), (102, 0x6C65746E), (103, 0x49656E69)]"
  by (simp add: cpuid_raw_def preprocess_def gcc_def cpuid_raw_asm_def cpuid_insn_regs
      sample_cpu_def sample_state_def stores.simps store_u32_def outputs_def)

lemma run_msvc_leaf5:
  "\<exists>s'. cpuid_raw msvc sample_cpu sample_regs 5 7 100 101 102 103 sample_state = Inr s'
        \<and> outputs 100 101 102 103 s' =
             [Some 0x80000005, Some 0xFFFFFFFF, Some 7, Some 0x80000001]
        \<and> heap s' 200 = Some 0x12345678
        \<and> wlog s' = [(100, 0x80000005), (101, 0xFFFFFFFF), (102, 7), (103, 0x80000001)]"
  by (simp add: cpuid_raw_def preprocess_def msvc_def cpuid_raw_intrinsic_def sample_regs_filled
      u32_of_int_def sample_state_def stores.simps store_u32_def outputs_def)

lemma run_other_cc_aliased:
  "\<exists>s'. cpuid_raw other_cc sample_cpu sample_regs 5 7 100 100 102 103 sample_state = Inr s'
        \<and> outputs 100 100 102 103 s' = [Some 0, Some 0, Some 0, Some 0]
        \<and> heap s' 101 = Some 0xBBBBBBBB
        \<and> wlog s' = [(103, 0), (102, 0), (100, 0), (100, 0)]"
  by (simp add: cpuid_raw_def preprocess_def other_cc_def cpuid_raw_zero_def
      sample_state_def stores.simps store_u32_def outputs_def)

lemma run_null_pointer:
  "cpuid_raw gcc sample_cpu sample_regs 0 0 100 0 102 103 sample_state = Inl Invalid_Pointer"
  by (simp add: cpuid_raw_def preprocess_def gcc_def cpuid_raw_asm_def
      sample_state_def stores.simps store_u32_def)

end
